theory Spec2Isabelle
  imports Main
begin

section \<open>The remote CAN server: data model\<close>

text \<open>
  This theory embeds \<^verbatim>\<open>can/interfaces/remote/server.py\<close>: the per-client request handler
  \<^verbatim>\<open>ClientBusConnection\<close> with its handshake (\<^verbatim>\<open>setup\<close>, \<^verbatim>\<open>handle\<close>, \<^verbatim>\<open>finish\<close>), the
  client-to-bus loop \<^verbatim>\<open>_receive_from_client\<close> and the bus-to-client loop
  \<^verbatim>\<open>_send_to_client\<close>.

  Every function takes the session state and returns it updated. The two loops run in two
  threads in the program; here each loop is embedded as the sequential function it is, and
  the interleaving of the two threads is not part of the model. Everything the handler
  does to its collaborators (the bus adapter, the periodic tasks, the framer and the
  socket) is appended to the \<open>log\<close> of the session, so that the order and the number of
  these operations can be stated.
\<close>

subsection \<open>Exceptions and results\<close>

text \<open>
  The exceptions the handler raises itself (\<^verbatim>\<open>RemoteServerError\<close>), the ones Python raises
  for it (\<^verbatim>\<open>KeyError\<close> on a missing dictionary key, \<^verbatim>\<open>ValueError\<close> of \<^verbatim>\<open>list.remove\<close>,
  \<^verbatim>\<open>AttributeError\<close> of a method call on \<^verbatim>\<open>None\<close>) and the ones that reach it from outside
  (\<^verbatim>\<open>can.CanError\<close> of the bus adapter, a socket error while reading, the \<^verbatim>\<open>OSError\<close> of
  \<^verbatim>\<open>getpeername\<close> on a socket that is no longer connected, any other exception of the bus
  constructor).
\<close>

datatype exn =
    RemoteServerError string
  | CanError string
  | KeyError int
  | ValueError
  | AttributeError
  | SocketError string
  | OSError string
  | OtherError string

text \<open>
  A call returns a value, raises, or never returns: \<^verbatim>\<open>_next_event\<close> blocks in
  \<^verbatim>\<open>request.recv\<close> for as long as the client sends nothing.
\<close>

datatype 'a outcome = Returns 'a | Raises exn | Blocks

subsection \<open>Frames and protocol events\<close>

text \<open>
  Modelled from the spec: \<^verbatim>\<open>can.Message\<close> and the module \<^verbatim>\<open>can.interfaces.remote.events\<close>
  are not among the sources. A frame is an arbitration ID and a payload (glossary of the
  spec); the events are the discriminated union of section 3 of the spec, with the fields
  the handler reads (\<^verbatim>\<open>version\<close>, \<^verbatim>\<open>bitrate\<close>, \<^verbatim>\<open>can_filters\<close>, \<^verbatim>\<open>msg\<close>, \<^verbatim>\<open>period\<close>,
  \<^verbatim>\<open>duration\<close>, \<^verbatim>\<open>arbitration_id\<close>). Periods, durations and timeouts are Python floats
  in seconds; they are only passed on, never computed with, and are written here in
  milliseconds (0.5 s is 500).
\<close>

record message =
  arbitration_id :: int
  data :: "nat list"

type_synonym can_filter = "int \<times> int"

datatype event =
    BusRequest int int
  | FilterConfig "can_filter list"
  | BusResponse string
  | CanMessage message
  | PeriodicMessageStart message nat "nat option"
  | PeriodicMessageStop int
  | ConnectionClosed
  | RemoteException exn
  | TransmitFail

text \<open>What the client side of the socket delivers next: a decoded event, or a failure of
  the transport while reading.\<close>

datatype input = Event event | Transport_error exn

subsection \<open>The bus adapter and its periodic tasks\<close>

text \<open>
  Modelled from the spec: the bus adapter (\<^verbatim>\<open>can.interface.Bus\<close>) is an external
  collaborator, given by its interface in section 6 of the spec: \<^verbatim>\<open>send\<close> succeeds or
  fails with a bus error (\<^verbatim>\<open>can.CanError\<close>), \<^verbatim>\<open>recv\<close> yields a frame, nothing, or a bus
  error, \<^verbatim>\<open>send_periodic\<close> yields a task handle, and a task can be modified and stopped.
  The adapter is scripted: \<open>send_results\<close> and \<open>recv_results\<close> hold what the successive
  calls of \<^verbatim>\<open>send\<close> and \<^verbatim>\<open>recv\<close> will answer. A \<^verbatim>\<open>send\<close> beyond the script succeeds and a
  \<^verbatim>\<open>recv\<close> beyond the script finds no frame.
\<close>

datatype recv_result = Frame message | No_frame | Recv_error string

record bus =
  channel_info :: string
  send_results :: "string option list"
  recv_results :: "recv_result list"
  shut_down :: bool

record periodic_task =
  task_msg :: message
  task_period :: nat
  task_duration :: "nat option"
  stopped :: bool

datatype config_value = Int_val int | Str_val string | Filters_val "can_filter list"

type_synonym config = "string \<rightharpoonup> config_value"

subsection \<open>The log of operations\<close>

text \<open>
  One entry for each operation on a collaborator, in the order of the calls. \<open>Select\<close>
  carries the timeout and the answer of the call (whether the socket was writable),
  \<open>Sendall\<close> the events written to the socket by that call.
\<close>

datatype call =
    Bus_open "config_value option" "config_value option"
  | Bus_send message
  | Bus_recv nat
  | Bus_send_periodic message nat "nat option"
  | Task_modify_data nat message
  | Task_stop nat
  | Bus_shutdown
  | Conn_send_event event
  | Select nat bool
  | Sendall "event list"
  | Thread_start

subsection \<open>The session\<close>

text \<open>
  The fields of \<^verbatim>\<open>ClientBusConnection\<close>, together with what it shares with its
  surroundings: \<open>clients\<close> is \<^verbatim>\<open>self.server.clients\<close> (a Python list, so an entry can
  occur twice), \<open>self_id\<close> is the identity of \<^verbatim>\<open>self\<close> in that list, \<open>tasks\<close> is the store
  of the task objects that \<^verbatim>\<open>bus.send_periodic\<close> has created (a handle is an index into
  it), and \<open>send_tasks\<close> is the dictionary from arbitration ID to task handle.

  Modelled from the spec: the framer \<^verbatim>\<open>can.interfaces.remote.connection.Connection\<close> is
  not among the sources. It is taken at the level of whole events (section 4.1 of the
  spec): \<open>inbound\<close> holds what the successive calls of \<^verbatim>\<open>_next_event\<close> will decode from
  the socket, \<open>outbound\<close> holds the events queued by \<^verbatim>\<open>send_event\<close> and not yet taken by
  \<^verbatim>\<open>next_data\<close>. \<open>writable\<close> holds the answers of the successive \<^verbatim>\<open>select\<close> calls
  (beyond the script the call times out: not writable). \<open>peername\<close> is what
  \<^verbatim>\<open>self.request.getpeername()\<close> will answer at the teardown: the address of the peer, or
  \<open>None\<close> when the socket is no longer connected (the peer has reset the connection) and
  the call raises \<^verbatim>\<open>OSError\<close>.
\<close>

record session =
  self_id :: nat
  clients :: "nat list"
  config :: config
  bus :: "bus option"
  tasks :: "periodic_task list"
  send_tasks :: "int \<rightharpoonup> nat"
  inbound :: "input list"
  outbound :: "event list"
  writable :: "bool list"
  peername :: "string option"
  stop_event :: bool
  send_thread_started :: bool
  log :: "call list"

definition logged :: "call \<Rightarrow> session \<Rightarrow> session" where
  "logged c s = s\<lparr>log := log s @ [c]\<rparr>"

section \<open>The operations\<close>

subsection \<open>The framer and the socket\<close>

text \<open>Modelled from the spec: \<^verbatim>\<open>Connection.send_event\<close> (\<open>queueEvent\<close> in section 4.1)
  is not among the sources. \<^verbatim>\<open>self.conn.send_event(event)\<close> appends the event to the
  outbound buffer.\<close>

definition send_event :: "event \<Rightarrow> session \<Rightarrow> session" where
  "send_event e s = logged (Conn_send_event e) (s\<lparr>outbound := outbound s @ [e]\<rparr>)"

text \<open>Modelled from the spec: \<^verbatim>\<open>Connection.next_data\<close> (\<open>drainOutput\<close> in section 4.1) is
  not among the sources. \<^verbatim>\<open>self.request.sendall(self.conn.next_data())\<close> takes the whole
  outbound buffer, leaving it empty, and writes it to the socket.\<close>

definition sendall_next_data :: "session \<Rightarrow> session" where
  "sendall_next_data s = logged (Sendall (outbound s)) (s\<lparr>outbound := []\<rparr>)"

text \<open>\<^verbatim>\<open>len(select.select([], [self.request], [], 2)[1]) > 0\<close>.\<close>

definition select_writable :: "session \<Rightarrow> bool \<times> session" where
  "select_writable s =
     (case writable s of
        [] \<Rightarrow> (False, logged (Select 2000 False) s)
      | r # rs \<Rightarrow> (r, logged (Select 2000 r) (s\<lparr>writable := rs\<rparr>)))"

text \<open>
  \<^verbatim>\<open>
  def _next_event(self):
      event = self.conn.next_event()
      while event is None:
          self.conn.receive_data(self.request.recv(256))
          event = self.conn.next_event()
      return event
  \<close>
  Modelled from the spec: \<^verbatim>\<open>Connection.next_event\<close> and \<^verbatim>\<open>Connection.receive_data\<close>
  (\<open>nextEvent\<close> and \<open>pushBytes\<close> in section 4.1) are not among the sources. The loop
  reads from the socket until the framer has a whole event: it returns the next event of
  \<open>inbound\<close>, raises when reading fails, and never returns when the client sends nothing
  more.
\<close>

definition next_event :: "session \<Rightarrow> event outcome \<times> session" where
  "next_event s =
     (case inbound s of
        [] \<Rightarrow> (Blocks, s)
      | Event e # rest \<Rightarrow> (Returns e, s\<lparr>inbound := rest\<rparr>)
      | Transport_error x # rest \<Rightarrow> (Raises x, s\<lparr>inbound := rest\<rparr>))"

subsection \<open>The bus adapter\<close>

text \<open>Modelled from the spec: \<^verbatim>\<open>Bus.send\<close> is not among the sources (\<open>send\<close> in section 6).
  \<^verbatim>\<open>bus.send(msg)\<close> gives the next scripted answer; \<open>Some e\<close> is \<^verbatim>\<open>can.CanError(e)\<close>.\<close>

definition bus_send :: "bus \<Rightarrow> string option \<times> bus" where
  "bus_send b =
     (case send_results b of
        [] \<Rightarrow> (None, b)
      | r # rs \<Rightarrow> (r, b\<lparr>send_results := rs\<rparr>))"

text \<open>Modelled from the spec: \<^verbatim>\<open>Bus.recv\<close> is not among the sources (\<open>recv\<close> in section 6).
  \<^verbatim>\<open>bus.recv(timeout)\<close> gives the next scripted answer.\<close>

definition bus_recv :: "bus \<Rightarrow> recv_result \<times> bus" where
  "bus_recv b =
     (case recv_results b of
        [] \<Rightarrow> (No_frame, b)
      | r # rs \<Rightarrow> (r, b\<lparr>recv_results := rs\<rparr>))"

text \<open>Modelled from the spec: the task objects are not among the sources
  (\<open>modifyPeriodic\<close> and \<open>stopPeriodic\<close> in section 6). \<^verbatim>\<open>task.modify_data(msg)\<close> replaces
  the frame of the task object behind a handle and \<^verbatim>\<open>task.stop()\<close> stops it. The handles
  the handler holds are indices of the store; for any other number nothing changes.\<close>

definition modify_data :: "nat \<Rightarrow> message \<Rightarrow> periodic_task list \<Rightarrow> periodic_task list" where
  "modify_data h m ts = (if h < length ts then ts[h := (ts ! h)\<lparr>task_msg := m\<rparr>] else ts)"

definition stop :: "nat \<Rightarrow> periodic_task list \<Rightarrow> periodic_task list" where
  "stop h ts = (if h < length ts then ts[h := (ts ! h)\<lparr>stopped := True\<rparr>] else ts)"

text \<open>Modelled from the spec: \<^verbatim>\<open>Bus.send_periodic\<close> is not among the sources
  (\<open>startPeriodic\<close> in section 6). \<^verbatim>\<open>bus.send_periodic(msg, period, duration)\<close> creates a
  running task object and returns its handle.\<close>

definition send_periodic ::
  "message \<Rightarrow> nat \<Rightarrow> nat option \<Rightarrow> periodic_task list \<Rightarrow> nat \<times> periodic_task list" where
  "send_periodic m p d ts =
     (length ts,
      ts @ [\<lparr>task_msg = m, task_period = p, task_duration = d, stopped = False\<rparr>])"

subsection \<open>\<^verbatim>\<open>send_msg\<close>\<close>

text \<open>
  \<^verbatim>\<open>
  def send_msg(self, msg):
      try:
          self.bus.send(msg)
      except can.CanError as e:
          logger.error(str(e))
          self.conn.send_event(events.TransmitFail())
  \<close>
\<close>

definition send_msg :: "message \<Rightarrow> session \<Rightarrow> unit outcome \<times> session" where
  "send_msg m s =
     (case bus s of
        None \<Rightarrow> (Raises AttributeError, s)
      | Some b \<Rightarrow>
          (case bus_send b of
             (None, b') \<Rightarrow> (Returns (), logged (Bus_send m) (s\<lparr>bus := Some b'\<rparr>))
           | (Some e, b') \<Rightarrow>
               (Returns (), send_event TransmitFail (logged (Bus_send m) (s\<lparr>bus := Some b'\<rparr>)))))"

subsection \<open>\<^verbatim>\<open>_receive_from_client\<close>\<close>

text \<open>
  \<^verbatim>\<open>
  while not self.stop_event.is_set():
      event = self._next_event()
      if isinstance(event, events.CanMessage):
          self.send_msg(event.msg)
      elif isinstance(event, events.ConnectionClosed):
          break
      elif isinstance(event, events.PeriodicMessageStart):
          if event.msg.arbitration_id in self.send_tasks:
              self.send_tasks[event.msg.arbitration_id].modify_data(event.msg)
          else:
              task = self.bus.send_periodic(event.msg, event.period, event.duration)
              self.send_tasks[event.msg.arbitration_id] = task
      elif isinstance(event, events.PeriodicMessageStop):
          self.send_tasks[event.arbitration_id].stop()
  \<close>
  \<open>dispatch\<close> is the body of the loop after \<^verbatim>\<open>_next_event\<close> has returned: it says whether
  the loop goes on (\<open>Continue\<close>) or is left (\<open>Break\<close>).
\<close>

datatype ctl = Continue | Break

definition dispatch :: "event \<Rightarrow> session \<Rightarrow> ctl outcome \<times> session" where
  "dispatch ev s =
     (case ev of
        CanMessage m \<Rightarrow>
          (case send_msg m s of
             (Returns u, s') \<Rightarrow> (Returns Continue, s')
           | (Raises x, s') \<Rightarrow> (Raises x, s')
           | (Blocks, s') \<Rightarrow> (Blocks, s'))
      | ConnectionClosed \<Rightarrow> (Returns Break, s)
      | PeriodicMessageStart m p d \<Rightarrow>
          (case send_tasks s (arbitration_id m) of
             Some h \<Rightarrow>
               (Returns Continue,
                logged (Task_modify_data h m) (s\<lparr>tasks := modify_data h m (tasks s)\<rparr>))
           | None \<Rightarrow>
               (case bus s of
                  None \<Rightarrow> (Raises AttributeError, s)
                | Some b \<Rightarrow>
                    (case send_periodic m p d (tasks s) of
                       (task, ts) \<Rightarrow>
                         (Returns Continue,
                          logged (Bus_send_periodic m p d)
                            (s\<lparr>tasks := ts,
                               send_tasks := (send_tasks s)(arbitration_id m \<mapsto> task)\<rparr>)))))
      | PeriodicMessageStop i \<Rightarrow>
          (case send_tasks s i of
             None \<Rightarrow> (Raises (KeyError i), s)
           | Some h \<Rightarrow>
               (Returns Continue, logged (Task_stop h) (s\<lparr>tasks := stop h (tasks s)\<rparr>)))
      | _ \<Rightarrow> (Returns Continue, s))"

function receive_from_client :: "session \<Rightarrow> unit outcome \<times> session" where
  "receive_from_client s =
     (if stop_event s then (Returns (), s)
      else
        (case next_event s of
           (Returns ev, s1) \<Rightarrow>
             (case dispatch ev s1 of
                (Returns Continue, s2) \<Rightarrow> receive_from_client s2
              | (Returns Break, s2) \<Rightarrow> (Returns (), s2)
              | (Raises x, s2) \<Rightarrow> (Raises x, s2)
              | (Blocks, s2) \<Rightarrow> (Blocks, s2))
         | (Raises x, s1) \<Rightarrow> (Raises x, s1)
         | (Blocks, s1) \<Rightarrow> (Blocks, s1)))"
  by pat_completeness auto

termination
proof (relation "measure (\<lambda>s. length (inbound s))")
  show "wf (measure (\<lambda>s. length (inbound s)))" by simp
next
  fix s :: session and r1 s1 ev r2 s2 c
  assume n: "(r1, s1) = next_event s" "r1 = Returns ev" and d: "(r2, s2) = dispatch ev s1"
  from d have "inbound s2 = inbound s1"
    by (auto simp: dispatch_def send_periodic_def send_msg_def send_event_def logged_def
        split: event.splits option.splits prod.splits outcome.splits)
  with n show "(s2, s) \<in> measure (\<lambda>s. length (inbound s))"
    by (auto simp: next_event_def split: list.splits input.splits)
qed

declare receive_from_client.simps [simp del]

text \<open>
  The same loop, entered at \<^verbatim>\<open>event = self._next_event()\<close>: this is where the handler
  thread is whenever it waits for the client, the test of \<^verbatim>\<open>stop_event\<close> behind it.
\<close>

definition await_event :: "session \<Rightarrow> unit outcome \<times> session" where
  "await_event s =
     (case next_event s of
        (Returns ev, s1) \<Rightarrow>
          (case dispatch ev s1 of
             (Returns Continue, s2) \<Rightarrow> receive_from_client s2
           | (Returns Break, s2) \<Rightarrow> (Returns (), s2)
           | (Raises x, s2) \<Rightarrow> (Raises x, s2)
           | (Blocks, s2) \<Rightarrow> (Blocks, s2))
      | (Raises x, s1) \<Rightarrow> (Raises x, s1)
      | (Blocks, s1) \<Rightarrow> (Blocks, s1))"

subsection \<open>\<^verbatim>\<open>setup\<close>, \<^verbatim>\<open>handle\<close> and \<^verbatim>\<open>finish\<close>\<close>

text \<open>
  \<^verbatim>\<open>
  def setup(self):
      self.request.setsockopt(socket.IPPROTO_TCP, socket.TCP_NODELAY, 1)
      self.config = dict(self.server.config)
      self.bus = None
      self.conn = can.interfaces.remote.connection.Connection()
      self.stop_event = threading.Event()
      self.send_thread = threading.Thread(target=self._send_to_client, ...)
      self.send_thread.daemon = True
      self.send_tasks = {}
      # Register with the server
      self.server.clients.append(self)
  \<close>
  The server's configuration is a parameter.
\<close>

definition setup_handler :: "config \<Rightarrow> session \<Rightarrow> session" where
  "setup_handler server_config s =
     s\<lparr>config := server_config,
       bus := None,
       outbound := [],
       stop_event := False,
       send_thread_started := False,
       send_tasks := Map.empty,
       clients := clients s @ [self_id s]\<rparr>"

text \<open>Python's \<^verbatim>\<open>'%d' % n\<close> for the message of the version mismatch.\<close>

fun str_nat :: "nat \<Rightarrow> string" where
  "str_nat n =
     (if n < 10 then [char_of (48 + n)]
      else str_nat (n div 10) @ [char_of (48 + n mod 10)])"

declare str_nat.simps [simp del]

definition str_int :: "int \<Rightarrow> string" where
  "str_int i = (if i < 0 then CHR ''-'' # str_nat (nat (- i)) else str_nat (nat i))"

definition version_mismatch :: "int \<Rightarrow> int \<Rightarrow> exn" where
  "version_mismatch v pv =
     RemoteServerError
       (''Protocol version mismatch ('' @ str_int v @ '' != '' @ str_int pv @ '')'')"

text \<open>\<^verbatim>\<open>self.config.setdefault(key, value)\<close>.\<close>

definition setdefault :: "string \<Rightarrow> config_value \<Rightarrow> config \<Rightarrow> config" where
  "setdefault k v c = (case c k of None \<Rightarrow> c(k \<mapsto> v) | Some old \<Rightarrow> c)"

text \<open>
  The end of \<^verbatim>\<open>handle\<close>, from the opening of the bus on. The bus constructor
  \<^verbatim>\<open>can.interface.Bus\<close> is the parameter \<open>Bus\<close>: it raises or returns a bus.
  \<^verbatim>\<open>
  try:
      self.bus = can.interface.Bus(**self.config)
  except Exception as e:
      self.conn.send_event(events.RemoteException(e))
      raise
  else:
      self.conn.send_event(events.BusResponse(self.bus.channel_info))
      # Register with the server
      self.server.clients.append(self)
  finally:
      self.request.sendall(self.conn.next_data())

  self.send_thread.start()
  self._receive_from_client()
  \<close>
  Starting the thread is logged and flagged; what the thread does is \<open>send_to_client\<close>
  below.
\<close>

definition open_bus :: "(config \<Rightarrow> exn + bus) \<Rightarrow> session \<Rightarrow> unit outcome \<times> session" where
  "open_bus Bus s =
     (let s1 = logged (Bus_open (config s ''bitrate'') (config s ''can_filters'')) s in
      case Bus (config s) of
        Inl e \<Rightarrow> (Raises e, sendall_next_data (send_event (RemoteException e) s1))
      | Inr b \<Rightarrow>
          (let s2 = send_event (BusResponse (channel_info b)) (s1\<lparr>bus := Some b\<rparr>);
               s3 = s2\<lparr>clients := clients s2 @ [self_id s2]\<rparr>
           in (Returns (), sendall_next_data s3)))"

definition start_relaying :: "session \<Rightarrow> unit outcome \<times> session" where
  "start_relaying s =
     receive_from_client (logged Thread_start (s\<lparr>send_thread_started := True\<rparr>))"

text \<open>
  \<^verbatim>\<open>
  def handle(self):
      bus_event = self._next_event()
      if not isinstance(bus_event, events.BusRequest):
          raise RemoteServerError('Handshake error')
      if bus_event.version != can.interfaces.remote.PROTOCOL_VERSION:
          raise RemoteServerError('Protocol version mismatch (%d != %d)' % (
              bus_event.version, can.interfaces.remote.PROTOCOL_VERSION))
      self.config.setdefault("bitrate", bus_event.bitrate)
      filter_event = self._next_event()
      if not isinstance(filter_event, events.FilterConfig):
          raise RemoteServerError('Handshake error')
      self.config["can_filters"] = filter_event.can_filters
      ...
  \<close>
  The constant \<^verbatim>\<open>can.interfaces.remote.PROTOCOL_VERSION\<close> is not among the sources: it is
  a parameter.
\<close>

text \<open>\<open>handle_filters\<close> is \<^verbatim>\<open>handle\<close> from the second \<^verbatim>\<open>_next_event\<close> on.\<close>

definition handle_filters :: "(config \<Rightarrow> exn + bus) \<Rightarrow> session \<Rightarrow> unit outcome \<times> session" where
  "handle_filters Bus s =
     (case next_event s of
        (Blocks, s1) \<Rightarrow> (Blocks, s1)
      | (Raises x, s1) \<Rightarrow> (Raises x, s1)
      | (Returns filter_event, s1) \<Rightarrow>
          (case filter_event of
             FilterConfig can_filters \<Rightarrow>
               (case open_bus Bus
                       (s1\<lparr>config := (config s1)(''can_filters'' \<mapsto> Filters_val can_filters)\<rparr>) of
                  (Returns u, s2) \<Rightarrow> start_relaying s2
                | (Raises x, s2) \<Rightarrow> (Raises x, s2)
                | (Blocks, s2) \<Rightarrow> (Blocks, s2))
           | _ \<Rightarrow> (Raises (RemoteServerError ''Handshake error''), s1)))"

definition handle :: "int \<Rightarrow> (config \<Rightarrow> exn + bus) \<Rightarrow> session \<Rightarrow> unit outcome \<times> session" where
  "handle PROTOCOL_VERSION Bus s =
     (case next_event s of
        (Blocks, s1) \<Rightarrow> (Blocks, s1)
      | (Raises x, s1) \<Rightarrow> (Raises x, s1)
      | (Returns bus_event, s1) \<Rightarrow>
          (case bus_event of
             BusRequest version bitrate \<Rightarrow>
               (if version \<noteq> PROTOCOL_VERSION
                then (Raises (version_mismatch version PROTOCOL_VERSION), s1)
                else handle_filters Bus
                       (s1\<lparr>config := setdefault ''bitrate'' (Int_val bitrate) (config s1)\<rparr>))
           | _ \<Rightarrow> (Raises (RemoteServerError ''Handshake error''), s1)))"

text \<open>
  \<^verbatim>\<open>
  def finish(self):
      logger.info("Closing connection to %s", self.request.getpeername())
      # Remove itself from the server's list of clients
      self.server.clients.remove(self)
      self.stop_event.set()
      if self.send_thread.is_alive():
          self.send_thread.join(3)
  \<close>
  \<^verbatim>\<open>getpeername\<close> is evaluated first, for the log message: when the socket is no longer
  connected it raises \<^verbatim>\<open>OSError\<close>, and then the handler is neither removed from the list
  nor is the flag set. \<^verbatim>\<open>list.remove\<close> removes the first occurrence and raises
  \<^verbatim>\<open>ValueError\<close> when there is none. Waiting for the thread is a matter of time and is not
  in the model.
\<close>

definition finish :: "session \<Rightarrow> unit outcome \<times> session" where
  "finish s =
     (case peername s of
        None \<Rightarrow> (Raises (OSError ''getpeername''), s)
      | Some address \<Rightarrow>
          (if self_id s \<in> set (clients s)
           then (Returns (), s\<lparr>clients := remove1 (self_id s) (clients s), stop_event := True\<rparr>)
           else (Raises ValueError, s)))"

text \<open>
  The life of one handler is the constructor of Python's
  \<^verbatim>\<open>socketserver.BaseRequestHandler\<close>, which the class inherits:
  \<^verbatim>\<open>
  self.setup()
  try:
      self.handle()
  finally:
      self.finish()
  \<close>
  When \<^verbatim>\<open>handle\<close> never returns, \<^verbatim>\<open>finish\<close> is never reached.
\<close>

definition serve_client ::
  "config \<Rightarrow> int \<Rightarrow> (config \<Rightarrow> exn + bus) \<Rightarrow> session \<Rightarrow> unit outcome \<times> session" where
  "serve_client server_config PROTOCOL_VERSION Bus s =
     (case handle PROTOCOL_VERSION Bus (setup_handler server_config s) of
        (Blocks, s1) \<Rightarrow> (Blocks, s1)
      | (Returns u, s1) \<Rightarrow> finish s1
      | (Raises x, s1) \<Rightarrow>
          (case finish s1 of
             (Returns u, s2) \<Rightarrow> (Raises x, s2)
           | (Raises y, s2) \<Rightarrow> (Raises y, s2)
           | (Blocks, s2) \<Rightarrow> (Blocks, s2)))"

subsection \<open>\<^verbatim>\<open>_next_event_from_bus\<close> and \<^verbatim>\<open>_send_to_client\<close>\<close>

text \<open>
  \<^verbatim>\<open>
  def _next_event_from_bus(self, timeout=None):
      try:
          msg = self.bus.recv(timeout)
      except can.CanError as e:
          logger.error(e)
          return events.RemoteException(e)
      else:
          return None if msg is None else events.CanMessage(msg)
  \<close>
\<close>

definition next_event_from_bus :: "nat \<Rightarrow> session \<Rightarrow> event option outcome \<times> session" where
  "next_event_from_bus timeout s =
     (case bus s of
        None \<Rightarrow> (Raises AttributeError, s)
      | Some b \<Rightarrow>
          (case bus_recv b of
             (r, b') \<Rightarrow>
               (let s' = logged (Bus_recv timeout) (s\<lparr>bus := Some b'\<rparr>) in
                case r of
                  Frame msg \<Rightarrow> (Returns (Some (CanMessage msg)), s')
                | No_frame \<Rightarrow> (Returns None, s')
                | Recv_error e \<Rightarrow> (Returns (Some (RemoteException (CanError e))), s'))))"

fun is_RemoteException :: "event \<Rightarrow> bool" where
  "is_RemoteException (RemoteException e) = True"
| "is_RemoteException _ = False"

text \<open>
  The inner loop below ends because every poll that yields an event takes one answer from
  the script of the bus: \<open>pending\<close> counts the answers left, \<open>remaining\<close> is the measure
  that decreases.
\<close>

definition pending :: "session \<Rightarrow> nat" where
  "pending s = (case bus s of None \<Rightarrow> 0 | Some b \<Rightarrow> length (recv_results b))"

definition remaining :: "event option \<times> session \<Rightarrow> nat" where
  "remaining p = (case p of (ev, s) \<Rightarrow> 2 * pending s + (case ev of None \<Rightarrow> 0 | Some e \<Rightarrow> 1))"

text \<open>
  The inner loop of \<^verbatim>\<open>_send_to_client\<close>:
  \<^verbatim>\<open>
  # Read all CAN events to buffer
  while event is not None:
      self.conn.send_event(event)
      if isinstance(event, events.RemoteException):
          self.stop_event.set()
          break
      event = self._next_event_from_bus(0)
  \<close>
\<close>

function read_all_can_events :: "event option \<Rightarrow> session \<Rightarrow> unit outcome \<times> session" where
  "read_all_can_events None s = (Returns (), s)"
| "read_all_can_events (Some e) s =
     (if is_RemoteException e then (Returns (), (send_event e s)\<lparr>stop_event := True\<rparr>)
      else
        (case next_event_from_bus 0 (send_event e s) of
           (Returns ev, s2) \<Rightarrow> read_all_can_events ev s2
         | (Raises x, s2) \<Rightarrow> (Raises x, s2)
         | (Blocks, s2) \<Rightarrow> (Blocks, s2)))"
  by pat_completeness auto

termination
proof (relation "measure remaining")
  show "wf (measure remaining)" by simp
next
  fix e :: event and s :: session and r s2 ev
  assume "(r, s2) = next_event_from_bus 0 (send_event e s)" "r = Returns ev"
  then have "(ev = None \<and> pending s2 \<le> pending s) \<or> pending s2 < pending s"
    by (auto simp: next_event_from_bus_def bus_recv_def pending_def send_event_def
        logged_def Let_def split: option.splits list.splits recv_result.splits)
  then show "((ev, s2), Some e, s) \<in> measure remaining"
    by (auto simp: remaining_def split: option.splits)
qed

declare read_all_can_events.simps [simp del]

text \<open>Modelled from the spec: \<^verbatim>\<open>Bus.shutdown\<close> is not among the sources (\<open>shutdown\<close> in
  section 6). \<^verbatim>\<open>self.bus.shutdown()\<close> marks the bus as shut down.\<close>

definition bus_shutdown :: "session \<Rightarrow> unit outcome \<times> session" where
  "bus_shutdown s =
     (case bus s of
        None \<Rightarrow> (Raises AttributeError, s)
      | Some b \<Rightarrow> (Returns (), logged Bus_shutdown (s\<lparr>bus := Some (b\<lparr>shut_down := True\<rparr>)\<rparr>)))"

text \<open>
  One pass through the body of the outer loop:
  \<^verbatim>\<open>
  # Wait for an event on CAN (max 0.5 seconds)
  event = self._next_event_from_bus(0.5)
  # Wait for client to be ready for new messages (max 2 seconds)
  client_ready = len(select.select([], [self.request], [], 2)[1]) > 0
  # Read all CAN events to buffer
  while event is not None: ...
  # Send all data at once if there is any
  if self.conn.data_ready() and client_ready:
      self.request.sendall(self.conn.next_data())
  \<close>
\<close>

definition send_iteration :: "session \<Rightarrow> unit outcome \<times> session" where
  "send_iteration s =
     (case next_event_from_bus 500 s of
        (Returns ev, s1) \<Rightarrow>
          (case select_writable s1 of
             (client_ready, s2) \<Rightarrow>
               (case read_all_can_events ev s2 of
                  (Returns u, s3) \<Rightarrow>
                    (Returns (),
                     if outbound s3 \<noteq> [] \<and> client_ready then sendall_next_data s3 else s3)
                | (Raises x, s3) \<Rightarrow> (Raises x, s3)
                | (Blocks, s3) \<Rightarrow> (Blocks, s3)))
      | (Raises x, s1) \<Rightarrow> (Raises x, s1)
      | (Blocks, s1) \<Rightarrow> (Blocks, s1))"

text \<open>
  \<^verbatim>\<open>
  def _send_to_client(self):
      while not self.stop_event.is_set():
          ...
      logger.info('Disconnecting from CAN bus')
      self.bus.shutdown()
  \<close>
  The loop runs for as long as nothing sets \<^verbatim>\<open>stop_event\<close>: on a silent bus it never
  ends. The function is partial, \<open>None\<close> standing for a run that never ends.
\<close>

partial_function (option) send_to_client :: "session \<Rightarrow> (unit outcome \<times> session) option" where
  "send_to_client s =
     (if stop_event s then Some (bus_shutdown s)
      else
        (case send_iteration s of
           (Returns u, s') \<Rightarrow> send_to_client s'
         | (Raises x, s') \<Rightarrow> Some (Raises x, s')
         | (Blocks, s') \<Rightarrow> Some (Blocks, s')))"

section \<open>Notions used to state the properties\<close>

text \<open>The events that \<^verbatim>\<open>_receive_from_client\<close> has a branch for.\<close>

fun handled :: "event \<Rightarrow> bool" where
  "handled (CanMessage m) = True"
| "handled ConnectionClosed = True"
| "handled (PeriodicMessageStart m p d) = True"
| "handled (PeriodicMessageStop i) = True"
| "handled _ = False"

text \<open>The part of a log that is operations of the bus adapter and of its tasks: the
  entries of the framer, the socket and the thread are left out.\<close>

fun bus_calls :: "call list \<Rightarrow> call list" where
  "bus_calls [] = []"
| "bus_calls (Conn_send_event e # cs) = bus_calls cs"
| "bus_calls (Select t r # cs) = bus_calls cs"
| "bus_calls (Sendall es # cs) = bus_calls cs"
| "bus_calls (Thread_start # cs) = bus_calls cs"
| "bus_calls (c # cs) = c # bus_calls cs"

text \<open>
  The arbitration ID a task sends, the task objects that exist for an ID, and the registry
  that a list of task objects stands for: each ID mapped to the handle of its task.
  \<open>registry_ok\<close> says that no two task objects have the same ID and that \<^verbatim>\<open>send_tasks\<close>
  is exactly that registry.
\<close>

definition task_id :: "periodic_task \<Rightarrow> int" where
  "task_id t = arbitration_id (task_msg t)"

definition tasks_for :: "int \<Rightarrow> session \<Rightarrow> periodic_task list" where
  "tasks_for i s = filter (\<lambda>t. task_id t = i) (tasks s)"

definition registry_of :: "periodic_task list \<Rightarrow> (int \<rightharpoonup> nat)" where
  "registry_of ts = map_of (zip (map task_id ts) [0..<length ts])"

definition registry_ok :: "session \<Rightarrow> bool" where
  "registry_ok s \<longleftrightarrow>
     distinct (map task_id (tasks s)) \<and> send_tasks s = registry_of (tasks s)"

text \<open>
  What one pass of the bus-to-client loop takes from the script of \<^verbatim>\<open>recv\<close> answers: the
  frames up to the first answer that is no frame. \<open>batch\<close> is the events they become
  (a bus error becomes a \<^verbatim>\<open>RemoteException\<close> and ends the batch), \<open>after_batch\<close> is the
  script that is left, \<open>ends_in_error\<close> says whether a bus error ended the batch, and
  \<open>drain_log\<close> is the operations of the inner loop for a batch: each event is queued and,
  unless it is a \<^verbatim>\<open>RemoteException\<close>, followed by a poll without waiting.
\<close>

fun batch :: "recv_result list \<Rightarrow> event list" where
  "batch [] = []"
| "batch (Frame m # rs) = CanMessage m # batch rs"
| "batch (No_frame # rs) = []"
| "batch (Recv_error e # rs) = [RemoteException (CanError e)]"

fun after_batch :: "recv_result list \<Rightarrow> recv_result list" where
  "after_batch [] = []"
| "after_batch (Frame m # rs) = after_batch rs"
| "after_batch (No_frame # rs) = rs"
| "after_batch (Recv_error e # rs) = rs"

fun ends_in_error :: "recv_result list \<Rightarrow> bool" where
  "ends_in_error [] = False"
| "ends_in_error (Frame m # rs) = ends_in_error rs"
| "ends_in_error (No_frame # rs) = False"
| "ends_in_error (Recv_error e # rs) = True"

fun drain_log :: "event list \<Rightarrow> call list" where
  "drain_log [] = []"
| "drain_log (e # es) =
     (if is_RemoteException e then [Conn_send_event e]
      else Conn_send_event e # Bus_recv 0 # drain_log es)"

text \<open>
  Discriminators for the answers of \<^verbatim>\<open>recv\<close> and for the entries of a log:
  \<open>exception_queued\<close> holds of the queuing of a \<^verbatim>\<open>RemoteException\<close>, \<open>drain_call\<close> of the
  operations the inner loop makes before a bus error: queuing any other event, and polling
  without waiting.
\<close>

fun is_Recv_error :: "recv_result \<Rightarrow> bool" where
  "is_Recv_error (Recv_error e) = True"
| "is_Recv_error _ = False"

fun exception_queued :: "call \<Rightarrow> bool" where
  "exception_queued (Conn_send_event e) = is_RemoteException e"
| "exception_queued _ = False"

fun drain_call :: "call \<Rightarrow> bool" where
  "drain_call (Conn_send_event e) = (\<not> is_RemoteException e)"
| "drain_call (Bus_recv t) = (t = 0)"
| "drain_call _ = False"

text \<open>The answer that the next \<^verbatim>\<open>select\<close> call will give, and the script of the bus of a
  session.\<close>

definition client_ready :: "session \<Rightarrow> bool" where
  "client_ready s = (case writable s of [] \<Rightarrow> False | r # rs \<Rightarrow> r)"

definition script :: "session \<Rightarrow> recv_result list" where
  "script s = (case bus s of None \<Rightarrow> [] | Some b \<Rightarrow> recv_results b)"

fun is_Bus_recv :: "call \<Rightarrow> bool" where
  "is_Bus_recv (Bus_recv t) = True"
| "is_Bus_recv _ = False"

text \<open>No poll of the bus comes after the first \<^verbatim>\<open>select\<close> of a log.\<close>

fun polls_precede_select :: "call list \<Rightarrow> bool" where
  "polls_precede_select [] = True"
| "polls_precede_select (Select t r # cs) = list_all (\<lambda>c. \<not> is_Bus_recv c) cs"
| "polls_precede_select (c # cs) = polls_precede_select cs"

subsection \<open>Example sessions\<close>

definition frame1 :: message where
  "frame1 = \<lparr>arbitration_id = 256, data = [1, 2, 3]\<rparr>"

definition frame2 :: message where
  "frame2 = \<lparr>arbitration_id = 256, data = [4, 5]\<rparr>"

definition mock_bus :: bus where
  "mock_bus =
     \<lparr>channel_info = ''mock0'', send_results = [], recv_results = [], shut_down = False\<rparr>"

text \<open>A bus constructor that always succeeds.\<close>

definition mock_Bus :: "config \<Rightarrow> exn + bus" where
  "mock_Bus c = Inr mock_bus"

text \<open>A connection that the server has just accepted: no handler has run yet, and the peer
  stays connected.\<close>

definition accepted :: session where
  "accepted =
     \<lparr>self_id = 0, clients = [], config = Map.empty, bus = None, tasks = [],
      send_tasks = Map.empty, inbound = [], outbound = [], writable = [],
      peername = Some ''192.0.2.1'', stop_event = False, send_thread_started = False,
      log = []\<rparr>"

text \<open>A session after a successful handshake.\<close>

definition relaying :: session where
  "relaying =
     accepted\<lparr>clients := [0, 0], bus := Some mock_bus, send_thread_started := True\<rparr>"

text \<open>A relaying session with one periodic task, for arbitration ID 256.\<close>

definition with_task :: session where
  "with_task =
     relaying\<lparr>tasks := [\<lparr>task_msg = frame1, task_period = 100, task_duration = None,
                           stopped = False\<rparr>],
              send_tasks := [256 \<mapsto> 0],
              log := [Bus_send_periodic frame1 100 None]\<rparr>"

text \<open>A relaying session whose bus refuses the next frame.\<close>

definition failing_send :: session where
  "failing_send = relaying\<lparr>bus := Some (mock_bus\<lparr>send_results := [Some ''bus off'']\<rparr>)\<rparr>"

text \<open>A client that completes the handshake and then closes the connection.\<close>

definition handshake :: session where
  "handshake =
     accepted\<lparr>inbound := [Event (BusRequest 1 500000), Event (FilterConfig []),
                          Event ConnectionClosed]\<rparr>"

text \<open>A client that starts a periodic task and then starts it again with another frame.\<close>

definition periodic_client :: session where
  "periodic_client =
     accepted\<lparr>inbound := [Event (BusRequest 1 500000), Event (FilterConfig []),
                          Event (PeriodicMessageStart frame1 100 None),
                          Event (PeriodicMessageStart frame2 100 None)]\<rparr>"

text \<open>A relaying session whose client starts a periodic task, stops it, and starts it
  twice more.\<close>

definition restarted :: session where
  "restarted =
     relaying\<lparr>inbound := [Event (PeriodicMessageStart frame1 100 None),
                          Event (PeriodicMessageStop 256),
                          Event (PeriodicMessageStart frame1 100 None),
                          Event (PeriodicMessageStart frame2 100 None)]\<rparr>"

text \<open>A client that speaks version 2 of the protocol.\<close>

definition old_client :: session where
  "old_client =
     accepted\<lparr>inbound := [Event (BusRequest 2 500000), Event (FilterConfig [])]\<rparr>"

text \<open>A relaying session with two frames waiting on the bus and a writable socket.\<close>

definition busy :: session where
  "busy =
     relaying\<lparr>bus := Some (mock_bus\<lparr>recv_results := [Frame frame1, Frame frame2]\<rparr>),
              writable := [True]\<rparr>"

text \<open>A relaying session whose bus reports an error at the first poll, and whose socket
  is not writable.\<close>

definition stalled :: session where
  "stalled = relaying\<lparr>bus := Some (mock_bus\<lparr>recv_results := [Recv_error ''bus off'']\<rparr>)\<rparr>"

section \<open>The client-to-bus loop\<close>

lemma receive_step:
  "\<not> stop_event s \<Longrightarrow> inbound s = Event ev # rest \<Longrightarrow>
   dispatch ev (s\<lparr>inbound := rest\<rparr>) = (Returns Continue, s') \<Longrightarrow>
   receive_from_client s = receive_from_client s'"
  by (subst receive_from_client.simps) (simp add: next_event_def)

text \<open>What each event of the loop preserves, the loop preserves, however it ends.\<close>

lemma receive_from_client_preserves:
  assumes step: "\<And>s r s'. P s \<Longrightarrow> next_event s = (r, s') \<Longrightarrow> P s'"
    and body: "\<And>ev s r s'. P s \<Longrightarrow> dispatch ev s = (r, s') \<Longrightarrow> P s'"
  shows "P s \<Longrightarrow> receive_from_client s = (r, s') \<Longrightarrow> P s'"
proof (induction s rule: receive_from_client.induct)
  case (1 s)
  show ?case
  proof (cases "stop_event s")
    case True
    with "1.prems" show ?thesis by (simp add: receive_from_client.simps)
  next
    case False
    obtain r1 s1 where ne: "next_event s = (r1, s1)" by fastforce
    have ok1: "P s1" using "1.prems"(1) ne by (rule step)
    show ?thesis
    proof (cases r1)
      case (Returns ev)
      obtain r2 s2 where d: "dispatch ev s1 = (r2, s2)" by fastforce
      have ok2: "P s2" using ok1 d by (rule body)
      show ?thesis
      proof (cases "r2 = Returns Continue")
        case True
        have "receive_from_client s = receive_from_client s2"
          using False ne Returns d True by (subst receive_from_client.simps) simp
        with "1.prems"(2) have "receive_from_client s2 = (r, s')" by simp
        from "1.IH" [OF False ne [symmetric] Returns d [symmetric] _ _ ok2 this] True
        show ?thesis by simp
      next
        case other: False
        have "s' = s2"
          using "1.prems"(2) False ne Returns d other
          by (subst (asm) receive_from_client.simps)
            (auto split: outcome.splits ctl.splits)
        with ok2 show ?thesis by simp
      qed
    next
      case (Raises x)
      with "1.prems"(2) False ne ok1 show ?thesis
        by (subst (asm) receive_from_client.simps) auto
    next
      case Blocks
      with "1.prems"(2) False ne ok1 show ?thesis
        by (subst (asm) receive_from_client.simps) auto
    qed
  qed
qed

lemma bus_calls_append: "bus_calls (xs @ ys) = bus_calls xs @ bus_calls ys"
  by (induction xs rule: bus_calls.induct) simp_all

text \<open>What a \<^verbatim>\<open>CanMessage\<close> does, for each answer of the adapter.\<close>

lemma dispatch_CanMessage:
  assumes "bus s = Some b"
  shows "dispatch (CanMessage m) s =
    (Returns Continue,
     case send_results b of
       [] \<Rightarrow> s\<lparr>log := log s @ [Bus_send m]\<rparr>
     | None # rs \<Rightarrow> s\<lparr>bus := Some (b\<lparr>send_results := rs\<rparr>), log := log s @ [Bus_send m]\<rparr>
     | Some e # rs \<Rightarrow>
         s\<lparr>bus := Some (b\<lparr>send_results := rs\<rparr>),
           outbound := outbound s @ [TransmitFail],
           log := log s @ [Bus_send m, Conn_send_event TransmitFail]\<rparr>)"
  using assms
  by (simp add: dispatch_def send_periodic_def send_msg_def bus_send_def send_event_def logged_def
      split: list.splits option.splits)

lemma dispatch_CanMessage_facts:
  assumes "bus s \<noteq> None" and "dispatch (CanMessage m) s = (r, s')"
  shows "r = Returns Continue \<and> bus s' \<noteq> None \<and> stop_event s' = stop_event s
       \<and> inbound s' = inbound s \<and> (\<exists>d. log s' = log s @ d \<and> bus_calls d = [Bus_send m])"
proof -
  from assms(1) obtain b where b: "bus s = Some b" by auto
  show ?thesis
    using assms(2) b unfolding dispatch_CanMessage [OF b]
    by (auto split: list.splits option.splits)
qed

text \<open>
  C10. During relaying, an event that is none of \<^verbatim>\<open>CanMessage\<close>, \<^verbatim>\<open>ConnectionClosed\<close>,
  \<^verbatim>\<open>PeriodicMessageStart\<close> and \<^verbatim>\<open>PeriodicMessageStop\<close> is silently ignored: the body of
  the loop raises nothing and returns the session as it was (registry, stop flag, outbound
  buffer and log of operations included), and the loop goes on with the next event.
\<close>

theorem unhandled_event_ignored:
  assumes "\<not> handled ev"
  shows "dispatch ev s = (Returns Continue, s)
       \<and> (\<not> stop_event s \<and> inbound s = Event ev # rest \<longrightarrow>
            receive_from_client s = receive_from_client (s\<lparr>inbound := rest\<rparr>))"
proof -
  have d: "dispatch ev s = (Returns Continue, s)" for s
    using assms by (cases ev) (simp_all add: dispatch_def send_periodic_def)
  have "receive_from_client s = receive_from_client (s\<lparr>inbound := rest\<rparr>)"
    if "\<not> stop_event s" "inbound s = Event ev # rest"
    using that d [of "s\<lparr>inbound := rest\<rparr>"] by (rule receive_step)
  with d show ?thesis by blast
qed

theorem unhandled_event_ignored_witness:
  "\<not> handled (BusRequest 1 500000)
   \<and> dispatch (BusRequest 1 500000) with_task = (Returns Continue, with_task)
   \<and> receive_from_client (with_task\<lparr>inbound := [Event (BusRequest 1 500000)]\<rparr>)
       = receive_from_client (with_task\<lparr>inbound := []\<rparr>)"
  using unhandled_event_ignored [of "BusRequest 1 500000" with_task]
    unhandled_event_ignored [of "BusRequest 1 500000"
      "with_task\<lparr>inbound := [Event (BusRequest 1 500000)]\<rparr>" "[]"]
  by (simp add: with_task_def relaying_def accepted_def)

text \<open>
  C8. When the adapter's \<^verbatim>\<open>send\<close> fails for a \<^verbatim>\<open>CanMessage\<close>, exactly one \<^verbatim>\<open>TransmitFail\<close>
  is queued for the client, nothing is raised, the stop flag is left as it was, and the
  loop goes on with the events that follow.
\<close>

theorem send_failure_reported:
  assumes "bus s = Some b" and "send_results b = Some e # rs"
  shows "dispatch (CanMessage m) s =
           (Returns Continue,
            s\<lparr>bus := Some (b\<lparr>send_results := rs\<rparr>),
              outbound := outbound s @ [TransmitFail],
              log := log s @ [Bus_send m, Conn_send_event TransmitFail]\<rparr>)
       \<and> (\<not> stop_event s \<and> inbound s = Event (CanMessage m) # rest \<longrightarrow>
            receive_from_client s =
              receive_from_client
                (s\<lparr>inbound := rest,
                   bus := Some (b\<lparr>send_results := rs\<rparr>),
                   outbound := outbound s @ [TransmitFail],
                   log := log s @ [Bus_send m, Conn_send_event TransmitFail]\<rparr>))"
proof -
  have d: "dispatch (CanMessage m) s =
           (Returns Continue,
            s\<lparr>bus := Some (b\<lparr>send_results := rs\<rparr>),
              outbound := outbound s @ [TransmitFail],
              log := log s @ [Bus_send m, Conn_send_event TransmitFail]\<rparr>)"
    if "bus s = Some b" for s
    using that assms(2) by (simp add: dispatch_CanMessage)
  have "receive_from_client s =
          receive_from_client
            (s\<lparr>inbound := rest,
               bus := Some (b\<lparr>send_results := rs\<rparr>),
               outbound := outbound s @ [TransmitFail],
               log := log s @ [Bus_send m, Conn_send_event TransmitFail]\<rparr>)"
    if "\<not> stop_event s" "inbound s = Event (CanMessage m) # rest"
    using that(1) that(2)
  proof (rule receive_step)
    show "dispatch (CanMessage m) (s\<lparr>inbound := rest\<rparr>) =
      (Returns Continue,
       s\<lparr>inbound := rest,
         bus := Some (b\<lparr>send_results := rs\<rparr>),
         outbound := outbound s @ [TransmitFail],
         log := log s @ [Bus_send m, Conn_send_event TransmitFail]\<rparr>)"
      using d [of "s\<lparr>inbound := rest\<rparr>"] assms(1) by simp
  qed
  with d [OF assms(1)] show ?thesis by blast
qed

theorem send_failure_reported_witness:
  "bus failing_send = Some (mock_bus\<lparr>send_results := [Some ''bus off'']\<rparr>)
   \<and> outbound (snd (dispatch (CanMessage frame1) failing_send)) = [TransmitFail]
   \<and> \<not> stop_event (snd (dispatch (CanMessage frame1) failing_send))
   \<and> fst (dispatch (CanMessage frame1) failing_send) = Returns Continue"
  using send_failure_reported [of failing_send
      "mock_bus\<lparr>send_results := [Some ''bus off'']\<rparr>" "''bus off''" "[]" frame1]
  by (simp add: failing_send_def relaying_def accepted_def mock_bus_def)

text \<open>The loop only appends to the log.\<close>

lemma log_grows:
  assumes "receive_from_client s = (r, s')"
  shows "\<exists>d. log s' = log s @ d"
proof (rule receive_from_client_preserves
    [where P = "\<lambda>t. \<exists>d. log t = log s @ d", OF _ _ _ assms])
  show "\<exists>d. log s2 = log s @ d" if "\<exists>d. log s1 = log s @ d" "next_event s1 = (r1, s2)"
    for s1 r1 s2
    using that by (auto simp: next_event_def split: list.splits input.splits)
  show "\<exists>d. log s2 = log s @ d" if "\<exists>d. log s1 = log s @ d" "dispatch ev s1 = (r1, s2)"
    for ev s1 r1 s2
    using that
    by (auto simp: dispatch_def send_periodic_def send_msg_def send_event_def logged_def
        bus_send_def split: event.splits option.splits prod.splits list.splits)
  show "\<exists>d. log s = log s @ d" by simp
qed

text \<open>The loop, run on a batch of frames, up to the end of the batch.\<close>

lemma batch_run:
  assumes "\<not> stop_event s" and "bus s \<noteq> None"
    and "inbound s = map (\<lambda>m. Event (CanMessage m)) ms @ rest"
  shows "\<exists>s' d. receive_from_client s = receive_from_client s'
           \<and> \<not> stop_event s' \<and> inbound s' = rest
           \<and> log s' = log s @ d \<and> bus_calls d = map Bus_send ms"
  using assms
proof (induction ms arbitrary: s)
  case Nil
  then show ?case by (intro exI [of _ s] exI [of _ "[]"]) simp
next
  case (Cons m ms)
  let ?s0 = "s\<lparr>inbound := map (\<lambda>m. Event (CanMessage m)) ms @ rest\<rparr>"
  obtain r s1 where d: "dispatch (CanMessage m) ?s0 = (r, s1)"
    by fastforce
  from Cons.prems(2) have "bus ?s0 \<noteq> None"
    by simp
  from dispatch_CanMessage_facts [OF this d]
  obtain d1 where f: "r = Returns Continue" "bus s1 \<noteq> None" "\<not> stop_event s1"
      "inbound s1 = map (\<lambda>m. Event (CanMessage m)) ms @ rest"
      "log s1 = log s @ d1" "bus_calls d1 = [Bus_send m]"
    using Cons.prems(1) by auto
  have step: "receive_from_client s = receive_from_client s1"
    using Cons.prems(1) _ d [unfolded f(1)]
    by (rule receive_step) (simp add: Cons.prems(3))
  from Cons.IH [OF f(3) f(2) f(4)]
  obtain s' d2 where ih: "receive_from_client s1 = receive_from_client s'"
      "\<not> stop_event s'" "inbound s' = rest" "log s' = log s1 @ d2"
      "bus_calls d2 = map Bus_send ms"
    by blast
  show ?case
    by (intro exI [of _ s'] exI [of _ "d1 @ d2"])
      (simp add: step ih f bus_calls_append)
qed

text \<open>
  C9. A batch of N \<^verbatim>\<open>CanMessage\<close> events, read by the loop of a relaying session, makes
  exactly N \<^verbatim>\<open>send\<close> calls on the adapter and no other adapter call, one per event and in
  the order of the events. The log of the run itself holds them: whatever follows the
  batch, the final log is the log before, then these calls, then what the rest adds; and
  when the batch is all the client sends, or is followed by \<^verbatim>\<open>ConnectionClosed\<close>, the run
  ends in the state whose log was extended by exactly these calls.
\<close>

theorem batch_sent_in_order:
  assumes "\<not> stop_event s" and "bus s \<noteq> None"
    and "inbound s = map (\<lambda>m. Event (CanMessage m)) ms @ rest"
  shows "\<exists>s' d. receive_from_client s = receive_from_client s'
           \<and> \<not> stop_event s' \<and> inbound s' = rest
           \<and> log s' = log s @ d \<and> bus_calls d = map Bus_send ms
           \<and> (\<forall>r sf. receive_from_client s = (r, sf) \<longrightarrow> (\<exists>d'. log sf = log s @ d @ d'))
           \<and> (rest = [] \<longrightarrow> receive_from_client s = (Blocks, s'))
           \<and> (\<forall>rest'. rest = Event ConnectionClosed # rest' \<longrightarrow>
                 receive_from_client s = (Returns (), s'\<lparr>inbound := rest'\<rparr>))"
proof -
  from batch_run [OF assms]
  obtain s' d where b: "receive_from_client s = receive_from_client s'"
      "\<not> stop_event s'" "inbound s' = rest" "log s' = log s @ d"
      "bus_calls d = map Bus_send ms"
    by blast
  have 1: "\<exists>d'. log sf = log s @ d @ d'" if "receive_from_client s = (r, sf)" for r sf
  proof -
    from that b(1) have "receive_from_client s' = (r, sf)" by simp
    from log_grows [OF this] b(4) show ?thesis by auto
  qed
  have 2: "receive_from_client s = (Blocks, s')" if "rest = []"
    using that b(1,2,3) by (simp add: receive_from_client.simps next_event_def)
  have 3: "receive_from_client s = (Returns (), s'\<lparr>inbound := rest'\<rparr>)"
    if "rest = Event ConnectionClosed # rest'" for rest'
    using that b(1,2,3)
    by (simp add: receive_from_client.simps next_event_def dispatch_def)
  from b 1 2 3 show ?thesis by blast
qed

theorem batch_sent_in_order_witness:
  "\<not> stop_event failing_send \<and> bus failing_send \<noteq> None
   \<and> fst (receive_from_client
            (failing_send\<lparr>inbound := [Event (CanMessage frame1), Event (CanMessage frame2)]\<rparr>))
       = Blocks
   \<and> bus_calls (log (snd (receive_from_client
            (failing_send\<lparr>inbound := [Event (CanMessage frame1), Event (CanMessage frame2)]\<rparr>))))
       = [Bus_send frame1, Bus_send frame2]"
proof -
  let ?s = "failing_send\<lparr>inbound := [Event (CanMessage frame1), Event (CanMessage frame2)]\<rparr>"
  have h: "\<not> stop_event ?s" "bus ?s \<noteq> None"
      "inbound ?s = map (\<lambda>m. Event (CanMessage m)) [frame1, frame2] @ []"
    by (simp_all add: failing_send_def relaying_def accepted_def)
  from batch_sent_in_order [OF h]
  obtain s' d where "receive_from_client ?s = (Blocks, s')" "log s' = log ?s @ d"
      "bus_calls d = map Bus_send [frame1, frame2]"
    by blast
  moreover have "log ?s = []" by (simp add: failing_send_def relaying_def accepted_def)
  ultimately show ?thesis using h(1,2) by simp
qed

section \<open>The periodic task registry\<close>

text \<open>
  C2. A \<^verbatim>\<open>PeriodicMessageStop\<close> for an arbitration ID without a registered task is not a
  no-op: the dictionary lookup \<^verbatim>\<open>self.send_tasks[event.arbitration_id]\<close> raises
  \<^verbatim>\<open>KeyError\<close>, which leaves the loop and \<^verbatim>\<open>handle\<close>; the events that follow are not
  processed. No adapter operation is made and the registry is unchanged.
\<close>

theorem stop_unregistered_raises:
  "dispatch (PeriodicMessageStop 291) relaying = (Raises (KeyError 291), relaying)
   \<and> receive_from_client
        (relaying\<lparr>inbound := [Event (PeriodicMessageStop 291), Event (CanMessage frame1)]\<rparr>)
      = (Raises (KeyError 291), relaying\<lparr>inbound := [Event (CanMessage frame1)]\<rparr>)"
  by (simp add: receive_from_client.simps next_event_def dispatch_def send_periodic_def relaying_def
      accepted_def)

text \<open>
  C3, as stated, fails: after a \<^verbatim>\<open>PeriodicMessageStop\<close> for a registered ID the ID is
  still registered.
\<close>

theorem stop_removes_counterexample:
  "send_tasks (snd (dispatch (PeriodicMessageStop 256) with_task)) 256 \<noteq> None"
  by (simp add: dispatch_def send_periodic_def with_task_def relaying_def accepted_def logged_def)

text \<open>
  C3, amended. A \<^verbatim>\<open>PeriodicMessageStop\<close> for a registered ID calls \<^verbatim>\<open>stop\<close> on the task
  registered for it and does nothing else: the registry is unchanged, so the ID stays
  registered with the same, now stopped, task.
\<close>

theorem stop_keeps_registration:
  assumes "send_tasks s i = Some h"
  shows "dispatch (PeriodicMessageStop i) s =
           (Returns Continue,
            s\<lparr>tasks := stop h (tasks s), log := log s @ [Task_stop h]\<rparr>)
       \<and> send_tasks (snd (dispatch (PeriodicMessageStop i) s)) = send_tasks s"
  using assms by (simp add: dispatch_def send_periodic_def logged_def)

theorem stop_keeps_registration_witness:
  "send_tasks with_task 256 = Some 0
   \<and> fst (dispatch (PeriodicMessageStop 256) with_task) = Returns Continue
   \<and> map stopped (tasks (snd (dispatch (PeriodicMessageStop 256) with_task))) = [True]
   \<and> log (snd (dispatch (PeriodicMessageStop 256) with_task))
       = [Bus_send_periodic frame1 100 None, Task_stop 0]
   \<and> send_tasks (snd (dispatch (PeriodicMessageStop 256) with_task)) 256 = Some 0"
  using stop_keeps_registration [of with_task 256 0]
  by (simp add: with_task_def relaying_def accepted_def stop_def)

lemma registry_of_Some:
  assumes "registry_of ts i = Some h"
  shows "h < length ts \<and> task_id (ts ! h) = i"
proof -
  from assms have "(i, h) \<in> set (zip (map task_id ts) [0..<length ts])"
    unfolding registry_of_def by (rule map_of_SomeD)
  then obtain k where "map task_id ts ! k = i" "[0..<length ts] ! k = h" "k < length ts"
    by (auto simp: in_set_zip)
  then show ?thesis by simp
qed

lemma registry_of_None: "registry_of ts i = None \<longleftrightarrow> i \<notin> task_id ` set ts"
  unfolding registry_of_def by (subst map_of_zip_is_None) simp_all

lemma registry_of_snoc:
  assumes "registry_of ts (task_id t) = None"
  shows "registry_of (ts @ [t]) = (registry_of ts)(task_id t \<mapsto> length ts)"
proof -
  have "registry_of (ts @ [t]) = [task_id t \<mapsto> length ts] ++ registry_of ts"
    by (simp add: registry_of_def)
  with assms show ?thesis
    by (auto simp: map_add_def fun_eq_iff split: option.splits)
qed

lemma task_ids_update:
  assumes "h < length ts" and "task_id t = task_id (ts ! h)"
  shows "map task_id (ts[h := t]) = map task_id ts"
  using assms by (simp add: map_update list_update_same_conv)

lemma registry_ok_dispatch:
  assumes "registry_ok s" and "dispatch ev s = (r, s')"
  shows "registry_ok s'"
proof (cases ev)
  case (CanMessage m)
  with assms show ?thesis
    by (auto simp: registry_ok_def dispatch_def send_periodic_def send_msg_def send_event_def logged_def
        split: option.splits prod.splits)
next
  case (PeriodicMessageStart m p d)
  show ?thesis
  proof (cases "send_tasks s (arbitration_id m)")
    case None
    let ?t = "\<lparr>task_msg = m, task_period = p, task_duration = d, stopped = False\<rparr>"
    from None assms(1) have n: "registry_of (tasks s) (task_id ?t) = None"
      by (simp add: registry_ok_def task_id_def)
    then have "task_id ?t \<notin> task_id ` set (tasks s)" by (simp add: registry_of_None)
    with assms None PeriodicMessageStart registry_of_snoc [OF n] show ?thesis
      by (auto simp: registry_ok_def dispatch_def send_periodic_def logged_def task_id_def split: option.splits)
  next
    case (Some h)
    with assms(1) have h: "h < length (tasks s)" "task_id (tasks s ! h) = arbitration_id m"
      using registry_of_Some [of "tasks s" "arbitration_id m" h] by (simp_all add: registry_ok_def)
    have "map task_id (modify_data h m (tasks s)) = map task_id (tasks s)"
      unfolding modify_data_def using h by (simp add: task_ids_update task_id_def)
    with assms Some PeriodicMessageStart show ?thesis
      by (auto simp: registry_ok_def dispatch_def send_periodic_def logged_def registry_of_def modify_data_def)
  qed
next
  case (PeriodicMessageStop i)
  show ?thesis
  proof (cases "send_tasks s i")
    case None
    with assms PeriodicMessageStop show ?thesis by (simp add: dispatch_def send_periodic_def)
  next
    case (Some h)
    with assms(1) have h: "h < length (tasks s)"
      using registry_of_Some [of "tasks s" i h] by (simp add: registry_ok_def)
    have "map task_id (stop h (tasks s)) = map task_id (tasks s)"
      unfolding stop_def using h by (simp add: task_ids_update task_id_def)
    with assms Some PeriodicMessageStop show ?thesis
      by (auto simp: registry_ok_def dispatch_def send_periodic_def logged_def registry_of_def stop_def)
  qed
qed (use assms in \<open>auto simp: dispatch_def send_periodic_def\<close>)

lemma registry_ok_receive:
  assumes "registry_ok s" and "receive_from_client s = (r, s')"
  shows "registry_ok s'"
proof (rule receive_from_client_preserves [where P = registry_ok, OF _ _ assms])
  show "registry_ok s2" if "registry_ok s1" "next_event s1 = (r1, s2)" for s1 r1 s2
    using that
    by (auto simp: next_event_def registry_ok_def split: list.splits input.splits)
  show "registry_ok s2" if "registry_ok s1" "dispatch ev s1 = (r1, s2)" for ev s1 r1 s2
    using that by (rule registry_ok_dispatch)
qed

lemma distinct_at_most_one:
  "distinct (map f xs) \<Longrightarrow> length (filter (\<lambda>x. f x = i) xs) \<le> 1"
  by (induction xs) (auto simp: filter_empty_conv image_iff)

lemma distinct_exactly_one:
  "distinct (map f xs) \<Longrightarrow> h < length xs \<Longrightarrow> f (xs ! h) = i \<Longrightarrow>
     filter (\<lambda>x. f x = i) xs = [xs ! h]"
proof (induction xs arbitrary: h)
  case Nil
  then show ?case by simp
next
  case (Cons x xs)
  show ?case
  proof (cases h)
    case 0
    with Cons.prems show ?thesis
      by (auto simp: filter_empty_conv image_iff)
  next
    case (Suc k)
    with Cons.prems have "f x \<noteq> i"
      by (auto simp: image_iff)
    with Cons Suc show ?thesis by simp
  qed
qed

lemma registered_task:
  assumes "registry_ok s" and "send_tasks s i = Some h"
  shows "h < length (tasks s) \<and> tasks_for i s = [tasks s ! h]"
proof -
  from assms have h: "h < length (tasks s)" "task_id (tasks s ! h) = i"
    using registry_of_Some [of "tasks s" i h] by (simp_all add: registry_ok_def)
  with assms(1) show ?thesis
    unfolding tasks_for_def registry_ok_def by (simp add: distinct_exactly_one)
qed


lemma restart_modifies:
  assumes "registry_ok s" and "send_tasks s (arbitration_id m) = Some h"
  shows "dispatch (PeriodicMessageStart m p d) s =
           (Returns Continue,
            s\<lparr>tasks := (tasks s)[h := (tasks s ! h)\<lparr>task_msg := m\<rparr>],
              log := log s @ [Task_modify_data h m]\<rparr>)"
    and "tasks_for (arbitration_id m) (snd (dispatch (PeriodicMessageStart m p d) s)) =
           [(tasks s ! h)\<lparr>task_msg := m\<rparr>]"
proof -
  from registered_task [OF assms] have h: "h < length (tasks s)" by simp
  show d: "dispatch (PeriodicMessageStart m p d) s =
           (Returns Continue,
            s\<lparr>tasks := (tasks s)[h := (tasks s ! h)\<lparr>task_msg := m\<rparr>],
              log := log s @ [Task_modify_data h m]\<rparr>)"
    using assms(2) h by (simp add: dispatch_def send_periodic_def logged_def modify_data_def)
  let ?s' = "s\<lparr>tasks := (tasks s)[h := (tasks s ! h)\<lparr>task_msg := m\<rparr>],
              log := log s @ [Task_modify_data h m]\<rparr>"
  have "registry_ok ?s'" using assms(1) d by (rule registry_ok_dispatch)
  moreover have "send_tasks ?s' (arbitration_id m) = Some h" using assms(2) by simp
  ultimately have "tasks_for (arbitration_id m) ?s' = [tasks ?s' ! h]"
    using registered_task by blast
  then show "tasks_for (arbitration_id m) (snd (dispatch (PeriodicMessageStart m p d) s)) =
           [(tasks s ! h)\<lparr>task_msg := m\<rparr>]"
    using h by (simp add: d)
qed

lemma start_registers:
  assumes "registry_ok s" and "bus s \<noteq> None"
  shows "\<exists>s1 k. dispatch (PeriodicMessageStart m p d) s = (Returns Continue, s1)
           \<and> send_tasks s1 (arbitration_id m) = Some k \<and> registry_ok s1 \<and> bus s1 \<noteq> None
           \<and> stopped (tasks s1 ! k)
               = (case send_tasks s (arbitration_id m) of
                    None \<Rightarrow> False | Some h \<Rightarrow> stopped (tasks s ! h))
           \<and> log s1 = log s @ [case send_tasks s (arbitration_id m) of
                                  None \<Rightarrow> Bus_send_periodic m p d
                                | Some h \<Rightarrow> Task_modify_data h m]"
proof -
  obtain r s1 where d: "dispatch (PeriodicMessageStart m p d) s = (r, s1)" by fastforce
  have ok: "registry_ok s1" using assms(1) d by (rule registry_ok_dispatch)
  show ?thesis
  proof (cases "send_tasks s (arbitration_id m)")
    case None
    with d assms(2) ok show ?thesis
      by (auto simp: dispatch_def send_periodic_def logged_def)
  next
    case (Some h)
    from registered_task [OF assms(1) Some] have h: "h < length (tasks s)" by simp
    from restart_modifies(1) [OF assms(1) Some, of p d] d
    have "r = Returns Continue"
      "s1 = s\<lparr>tasks := (tasks s)[h := (tasks s ! h)\<lparr>task_msg := m\<rparr>],
              log := log s @ [Task_modify_data h m]\<rparr>"
      by simp_all
    with Some h ok assms(2) d show ?thesis by auto
  qed
qed

lemma registry_ok_handle:
  assumes "tasks s = []" and "handle PROTOCOL_VERSION Bus (setup_handler server_config s) = (r, s')"
  shows "registry_ok s'"
proof -
  have ok: "registry_ok (setup_handler server_config s)"
    using assms(1) by (simp add: registry_ok_def registry_of_def setup_handler_def)
  have frame: "registry_ok s2"
    if "registry_ok s1" "tasks s2 = tasks s1" "send_tasks s2 = send_tasks s1" for s1 s2
    using that by (simp add: registry_ok_def)
  have ne: "registry_ok s2" if "registry_ok s1" "next_event s1 = (r1, s2)" for s1 s2 r1
    using that
    by (auto simp: next_event_def registry_ok_def split: list.splits input.splits)
  have ob: "registry_ok s2" if "registry_ok s1" "open_bus Bus s1 = (r1, s2)" for s1 s2 r1
    using that
    by (auto simp: open_bus_def registry_ok_def Let_def sendall_next_data_def send_event_def
        logged_def split: sum.splits)
  have hf: "registry_ok s2" if "registry_ok s1" "handle_filters Bus s1 = (r1, s2)" for s1 s2 r1
  proof -
    obtain r3 s3 where n: "next_event s1 = (r3, s3)" by fastforce
    have ok3: "registry_ok s3" using that(1) n by (rule ne)
    show ?thesis
    proof (cases "\<exists>fs. r3 = Returns (FilterConfig fs)")
      case True
      then obtain fs where r3: "r3 = Returns (FilterConfig fs)" by blast
      let ?s4 = "s3\<lparr>config := (config s3)(''can_filters'' \<mapsto> Filters_val fs)\<rparr>"
      obtain r5 s5 where o: "open_bus Bus ?s4 = (r5, s5)" by fastforce
      have "registry_ok ?s4" using ok3 by (rule frame) simp_all
      then have ok5: "registry_ok s5" using o by (rule ob)
      show ?thesis
      proof (cases r5)
        case (Returns u)
        have "registry_ok (logged Thread_start (s5\<lparr>send_thread_started := True\<rparr>))"
          using ok5 by (rule frame) (simp_all add: logged_def)
        moreover have "receive_from_client (logged Thread_start (s5\<lparr>send_thread_started := True\<rparr>)) = (r1, s2)"
          using that(2) n r3 o Returns by (simp add: handle_filters_def start_relaying_def)
        ultimately show ?thesis by (rule registry_ok_receive)
      next
        case (Raises x)
        with that(2) n r3 o ok5 show ?thesis by (simp add: handle_filters_def)
      next
        case Blocks
        with that(2) n r3 o ok5 show ?thesis by (simp add: handle_filters_def)
      qed
    next
      case False
      with that(2) n ok3 show ?thesis
        by (auto simp: handle_filters_def split: outcome.splits event.splits)
    qed
  qed
  obtain r1 s1 where n: "next_event (setup_handler server_config s) = (r1, s1)" by fastforce
  have ok1: "registry_ok s1" using ok n by (rule ne)
  show ?thesis
  proof (cases "\<exists>v b. r1 = Returns (BusRequest v b) \<and> v = PROTOCOL_VERSION")
    case True
    then obtain b where r1: "r1 = Returns (BusRequest PROTOCOL_VERSION b)" by blast
    let ?s2 = "s1\<lparr>config := setdefault ''bitrate'' (Int_val b) (config s1)\<rparr>"
    have "registry_ok ?s2" using ok1 by (rule frame) simp_all
    moreover have "handle_filters Bus ?s2 = (r, s')"
      using assms(2) n r1 by (simp add: handle_def)
    ultimately show ?thesis by (rule hf)
  next
    case False
    with assms(2) n ok1 show ?thesis
      by (auto simp: handle_def split: outcome.splits event.splits if_splits)
  qed
qed

text \<open>
  C5, as stated, fails: a client starts a task for ID 256, stops it and starts it twice
  more. The stop leaves the stopped task registered, so both later starts only call
  \<^verbatim>\<open>modify_data\<close> on it. No task is created, and the one task for the ID carries the
  latest frame but is stopped: no task for the ID is running.
\<close>

theorem two_starts_active_counterexample:
  "fst (receive_from_client restarted) = Blocks
   \<and> tasks (snd (receive_from_client restarted))
       = [\<lparr>task_msg = frame2, task_period = 100, task_duration = None, stopped = True\<rparr>]
   \<and> filter (\<lambda>t. \<not> stopped t) (tasks_for 256 (snd (receive_from_client restarted))) = []
   \<and> log (snd (receive_from_client restarted))
       = [Bus_send_periodic frame1 100 None, Task_stop 0,
          Task_modify_data 0 frame1, Task_modify_data 0 frame2]"
  by (simp add: restarted_def relaying_def accepted_def receive_from_client.simps
      next_event_def dispatch_def send_periodic_def logged_def stop_def modify_data_def
      tasks_for_def task_id_def frame1_def frame2_def)

text \<open>
  C5, amended. From a connection that has just been accepted, whatever the client sends and
  however \<^verbatim>\<open>handle\<close> ends, and from any session whose registry is in order, whatever
  events the loop processes, at most one task object exists per arbitration ID. A
  \<^verbatim>\<open>PeriodicMessageStart\<close> for an ID that has a registered task calls \<^verbatim>\<open>modify_data\<close> on
  that task with the new frame and creates no task. Two starts in a row for the same ID
  therefore leave exactly one task for the ID, the registered one, and it carries the
  frame of the second start. That task is running when the ID had no registered task
  before the first start (the first start creates it); otherwise it is running or stopped
  as the registered task was before: a start does not restart a stopped task.
\<close>

theorem one_task_per_id:
  assumes "registry_ok s"
  shows "(tasks s0 = [] \<and> handle PROTOCOL_VERSION Bus (setup_handler server_config s0) = (r0, s0')
            \<longrightarrow> registry_ok s0' \<and> length (tasks_for i s0') \<le> 1)
       \<and> (receive_from_client s = (r, s') \<longrightarrow>
            registry_ok s' \<and> length (tasks_for i s') \<le> 1)
       \<and> (send_tasks s (arbitration_id m) = Some h \<longrightarrow>
            dispatch (PeriodicMessageStart m p d) s =
              (Returns Continue,
               s\<lparr>tasks := (tasks s)[h := (tasks s ! h)\<lparr>task_msg := m\<rparr>],
                 log := log s @ [Task_modify_data h m]\<rparr>)
            \<and> tasks_for (arbitration_id m) (snd (dispatch (PeriodicMessageStart m p d) s)) =
                [(tasks s ! h)\<lparr>task_msg := m\<rparr>])
       \<and> (bus s \<noteq> None \<and> arbitration_id m2 = arbitration_id m1 \<longrightarrow>
            (\<exists>s1 s2 k.
               dispatch (PeriodicMessageStart m1 p1 d1) s = (Returns Continue, s1)
               \<and> dispatch (PeriodicMessageStart m2 p2 d2) s1 = (Returns Continue, s2)
               \<and> send_tasks s1 (arbitration_id m1) = Some k
               \<and> send_tasks s2 = send_tasks s1
               \<and> length (tasks s2) = length (tasks s1)
               \<and> log s1 = log s @ [case send_tasks s (arbitration_id m1) of
                                      None \<Rightarrow> Bus_send_periodic m1 p1 d1
                                    | Some h \<Rightarrow> Task_modify_data h m1]
               \<and> log s2 = log s1 @ [Task_modify_data k m2]
               \<and> tasks_for (arbitration_id m1) s2 = [(tasks s1 ! k)\<lparr>task_msg := m2\<rparr>]
               \<and> stopped ((tasks s1 ! k)\<lparr>task_msg := m2\<rparr>)
                   = (case send_tasks s (arbitration_id m1) of
                        None \<Rightarrow> False | Some h \<Rightarrow> stopped (tasks s ! h))
               \<and> length (filter (\<lambda>t. \<not> stopped t) (tasks_for (arbitration_id m1) s2))
                   = (case send_tasks s (arbitration_id m1) of
                        None \<Rightarrow> 1 | Some h \<Rightarrow> if stopped (tasks s ! h) then 0 else 1)))"
proof (intro conjI impI)
  assume "tasks s0 = [] \<and> handle PROTOCOL_VERSION Bus (setup_handler server_config s0) = (r0, s0')"
  then show ok: "registry_ok s0'" using registry_ok_handle by blast
  then show "length (tasks_for i s0') \<le> 1"
    using distinct_at_most_one [of task_id "tasks s0'" i]
    by (simp add: tasks_for_def registry_ok_def)
next
  assume run: "receive_from_client s = (r, s')"
  with assms show ok: "registry_ok s'" by (rule registry_ok_receive)
  then show "length (tasks_for i s') \<le> 1"
    using distinct_at_most_one [of task_id "tasks s'" i]
    by (simp add: tasks_for_def registry_ok_def)
next
  assume "send_tasks s (arbitration_id m) = Some h"
  with assms show "dispatch (PeriodicMessageStart m p d) s =
              (Returns Continue,
               s\<lparr>tasks := (tasks s)[h := (tasks s ! h)\<lparr>task_msg := m\<rparr>],
                 log := log s @ [Task_modify_data h m]\<rparr>)"
    and "tasks_for (arbitration_id m) (snd (dispatch (PeriodicMessageStart m p d) s)) =
                [(tasks s ! h)\<lparr>task_msg := m\<rparr>]"
    by (rule restart_modifies)+
next
  assume a: "bus s \<noteq> None \<and> arbitration_id m2 = arbitration_id m1"
  let ?was = "case send_tasks s (arbitration_id m1) of
                None \<Rightarrow> False | Some h \<Rightarrow> stopped (tasks s ! h)"
  from start_registers [OF assms, of m1 p1 d1] a
  obtain s1 k where s1: "dispatch (PeriodicMessageStart m1 p1 d1) s = (Returns Continue, s1)"
      "send_tasks s1 (arbitration_id m2) = Some k" "registry_ok s1"
      "stopped (tasks s1 ! k) = ?was"
      "log s1 = log s @ [case send_tasks s (arbitration_id m1) of
                           None \<Rightarrow> Bus_send_periodic m1 p1 d1
                         | Some h \<Rightarrow> Task_modify_data h m1]"
    by auto
  let ?s2 = "s1\<lparr>tasks := (tasks s1)[k := (tasks s1 ! k)\<lparr>task_msg := m2\<rparr>],
                 log := log s1 @ [Task_modify_data k m2]\<rparr>"
  from restart_modifies [OF s1(3) s1(2), of p2 d2]
  have s2: "dispatch (PeriodicMessageStart m2 p2 d2) s1 = (Returns Continue, ?s2)"
    and one: "tasks_for (arbitration_id m2) ?s2 = [(tasks s1 ! k)\<lparr>task_msg := m2\<rparr>]"
    by simp_all
  have st: "stopped ((tasks s1 ! k)\<lparr>task_msg := m2\<rparr>) = ?was"
    using s1(4) by simp
  have run: "length (filter (\<lambda>t. \<not> stopped t) (tasks_for (arbitration_id m2) ?s2))
      = (case send_tasks s (arbitration_id m1) of
           None \<Rightarrow> 1 | Some h \<Rightarrow> if stopped (tasks s ! h) then 0 else 1)"
    unfolding one using st by (simp split: option.splits)
  show "\<exists>s1 s2 k.
               dispatch (PeriodicMessageStart m1 p1 d1) s = (Returns Continue, s1)
               \<and> dispatch (PeriodicMessageStart m2 p2 d2) s1 = (Returns Continue, s2)
               \<and> send_tasks s1 (arbitration_id m1) = Some k
               \<and> send_tasks s2 = send_tasks s1
               \<and> length (tasks s2) = length (tasks s1)
               \<and> log s1 = log s @ [case send_tasks s (arbitration_id m1) of
                                      None \<Rightarrow> Bus_send_periodic m1 p1 d1
                                    | Some h \<Rightarrow> Task_modify_data h m1]
               \<and> log s2 = log s1 @ [Task_modify_data k m2]
               \<and> tasks_for (arbitration_id m1) s2 = [(tasks s1 ! k)\<lparr>task_msg := m2\<rparr>]
               \<and> stopped ((tasks s1 ! k)\<lparr>task_msg := m2\<rparr>)
                   = (case send_tasks s (arbitration_id m1) of
                        None \<Rightarrow> False | Some h \<Rightarrow> stopped (tasks s ! h))
               \<and> length (filter (\<lambda>t. \<not> stopped t) (tasks_for (arbitration_id m1) s2))
                   = (case send_tasks s (arbitration_id m1) of
                        None \<Rightarrow> 1 | Some h \<Rightarrow> if stopped (tasks s ! h) then 0 else 1)"
  proof (rule exI [of _ s1], rule exI [of _ ?s2], rule exI [of _ k], intro conjI)
    show "dispatch (PeriodicMessageStart m1 p1 d1) s = (Returns Continue, s1)" by (rule s1(1))
    show "dispatch (PeriodicMessageStart m2 p2 d2) s1 = (Returns Continue, ?s2)" by (rule s2)
    show "send_tasks s1 (arbitration_id m1) = Some k" using s1(2) a by simp
    show "send_tasks ?s2 = send_tasks s1" by simp
    show "length (tasks ?s2) = length (tasks s1)" by simp
    show "log s1 = log s @ [case send_tasks s (arbitration_id m1) of
                                      None \<Rightarrow> Bus_send_periodic m1 p1 d1
                                    | Some h \<Rightarrow> Task_modify_data h m1]" by (rule s1(5))
    show "log ?s2 = log s1 @ [Task_modify_data k m2]" by simp
    show "tasks_for (arbitration_id m1) ?s2 = [(tasks s1 ! k)\<lparr>task_msg := m2\<rparr>]"
      using one a by simp
    show "stopped ((tasks s1 ! k)\<lparr>task_msg := m2\<rparr>) = ?was" by (rule st)
    show "length (filter (\<lambda>t. \<not> stopped t) (tasks_for (arbitration_id m1) ?s2))
      = (case send_tasks s (arbitration_id m1) of
           None \<Rightarrow> 1 | Some h \<Rightarrow> if stopped (tasks s ! h) then 0 else 1)"
      using run a by simp
  qed
qed

theorem one_task_per_id_witness:
  "registry_ok relaying \<and> bus relaying \<noteq> None \<and> arbitration_id frame2 = arbitration_id frame1
   \<and> tasks periodic_client = []
   \<and> fst (handle 1 mock_Bus (setup_handler Map.empty periodic_client)) = Blocks
   \<and> tasks (snd (handle 1 mock_Bus (setup_handler Map.empty periodic_client)))
       = [\<lparr>task_msg = frame2, task_period = 100, task_duration = None, stopped = False\<rparr>]
   \<and> length (tasks_for 256 (snd (handle 1 mock_Bus (setup_handler Map.empty periodic_client)))) \<le> 1
   \<and> (\<exists>s1 s2 k.
         dispatch (PeriodicMessageStart frame1 100 None) relaying = (Returns Continue, s1)
         \<and> dispatch (PeriodicMessageStart frame2 100 None) s1 = (Returns Continue, s2)
         \<and> send_tasks s1 (arbitration_id frame1) = Some k
         \<and> log s1 = [Bus_send_periodic frame1 100 None]
         \<and> log s2 = log s1 @ [Task_modify_data k frame2]
         \<and> tasks_for (arbitration_id frame1) s2 = [(tasks s1 ! k)\<lparr>task_msg := frame2\<rparr>]
         \<and> \<not> stopped ((tasks s1 ! k)\<lparr>task_msg := frame2\<rparr>)
         \<and> length (filter (\<lambda>t. \<not> stopped t) (tasks_for (arbitration_id frame1) s2)) = 1)"
proof -
  have ok: "registry_ok relaying"
    by (simp add: registry_ok_def registry_of_def relaying_def accepted_def)
  have run: "handle 1 mock_Bus (setup_handler Map.empty periodic_client) =
      (fst (handle 1 mock_Bus (setup_handler Map.empty periodic_client)),
       snd (handle 1 mock_Bus (setup_handler Map.empty periodic_client)))"
    by simp
  have fresh: "tasks periodic_client = []" by (simp add: periodic_client_def accepted_def)
  have ids: "arbitration_id frame2 = arbitration_id frame1"
    by (simp add: frame1_def frame2_def)
  have b: "bus relaying \<noteq> None" by (simp add: relaying_def)
  have none: "send_tasks relaying (arbitration_id frame1) = None" "log relaying = []"
    by (simp_all add: relaying_def accepted_def)
  have eval: "fst (handle 1 mock_Bus (setup_handler Map.empty periodic_client)) = Blocks
     \<and> tasks (snd (handle 1 mock_Bus (setup_handler Map.empty periodic_client)))
       = [\<lparr>task_msg = frame2, task_period = 100, task_duration = None, stopped = False\<rparr>]"
    by (simp add: setup_handler_def periodic_client_def accepted_def handle_def
      next_event_def handle_filters_def setdefault_def open_bus_def mock_Bus_def mock_bus_def
      send_event_def logged_def sendall_next_data_def start_relaying_def
      receive_from_client.simps dispatch_def send_periodic_def modify_data_def frame1_def frame2_def)
  note inst = one_task_per_id [OF ok, where ?m1.0 = frame1 and ?m2.0 = frame2
      and ?s0.0 = periodic_client and PROTOCOL_VERSION = 1 and Bus = mock_Bus
      and server_config = Map.empty
      and ?r0.0 = "fst (handle 1 mock_Bus (setup_handler Map.empty periodic_client))"
      and s0' = "snd (handle 1 mock_Bus (setup_handler Map.empty periodic_client))"
      and i = 256 and ?p1.0 = 100 and ?d1.0 = None and ?p2.0 = 100 and ?d2.0 = None]
  from inst fresh run
  have c1: "length (tasks_for 256 (snd (handle 1 mock_Bus (setup_handler Map.empty periodic_client)))) \<le> 1"
    by blast
  from inst b ids
  have "\<exists>s1 s2 k.
         dispatch (PeriodicMessageStart frame1 100 None) relaying = (Returns Continue, s1)
         \<and> dispatch (PeriodicMessageStart frame2 100 None) s1 = (Returns Continue, s2)
         \<and> send_tasks s1 (arbitration_id frame1) = Some k
         \<and> send_tasks s2 = send_tasks s1
         \<and> length (tasks s2) = length (tasks s1)
         \<and> log s1 = log relaying @ [case send_tasks relaying (arbitration_id frame1) of
                                      None \<Rightarrow> Bus_send_periodic frame1 100 None
                                    | Some h \<Rightarrow> Task_modify_data h frame1]
         \<and> log s2 = log s1 @ [Task_modify_data k frame2]
         \<and> tasks_for (arbitration_id frame1) s2 = [(tasks s1 ! k)\<lparr>task_msg := frame2\<rparr>]
         \<and> stopped ((tasks s1 ! k)\<lparr>task_msg := frame2\<rparr>)
             = (case send_tasks relaying (arbitration_id frame1) of
                  None \<Rightarrow> False | Some h \<Rightarrow> stopped (tasks relaying ! h))
         \<and> length (filter (\<lambda>t. \<not> stopped t) (tasks_for (arbitration_id frame1) s2))
             = (case send_tasks relaying (arbitration_id frame1) of
                  None \<Rightarrow> 1 | Some h \<Rightarrow> if stopped (tasks relaying ! h) then 0 else 1)"
    by blast
  then have c2: "\<exists>s1 s2 k.
         dispatch (PeriodicMessageStart frame1 100 None) relaying = (Returns Continue, s1)
         \<and> dispatch (PeriodicMessageStart frame2 100 None) s1 = (Returns Continue, s2)
         \<and> send_tasks s1 (arbitration_id frame1) = Some k
         \<and> log s1 = [Bus_send_periodic frame1 100 None]
         \<and> log s2 = log s1 @ [Task_modify_data k frame2]
         \<and> tasks_for (arbitration_id frame1) s2 = [(tasks s1 ! k)\<lparr>task_msg := frame2\<rparr>]
         \<and> \<not> stopped ((tasks s1 ! k)\<lparr>task_msg := frame2\<rparr>)
         \<and> length (filter (\<lambda>t. \<not> stopped t) (tasks_for (arbitration_id frame1) s2)) = 1"
    unfolding none by auto
  from ok b ids fresh eval c1 c2 show ?thesis by blast
qed

section \<open>The handshake and the server's list of clients\<close>

text \<open>
  C4. A \<^verbatim>\<open>BusRequest\<close> whose version is not the server's protocol version makes \<^verbatim>\<open>handle\<close>
  raise the version mismatch error at once. Apart from the event read, the session is as
  it was before \<^verbatim>\<open>handle\<close>: the bus constructor has not been called (the log has no new
  entry, whatever the constructor would do), no bus is held, the handler has not been
  appended to the server's list again, the sending thread is not started and the loop
  \<^verbatim>\<open>_receive_from_client\<close> is not entered.
\<close>

theorem version_mismatch_aborts:
  assumes "inbound s = Event (BusRequest v bitrate) # rest" and "v \<noteq> PROTOCOL_VERSION"
  shows "handle PROTOCOL_VERSION Bus s =
           (Raises (version_mismatch v PROTOCOL_VERSION), s\<lparr>inbound := rest\<rparr>)"
  using assms by (simp add: handle_def next_event_def)

theorem version_mismatch_aborts_witness:
  "inbound (setup_handler Map.empty old_client)
     = [Event (BusRequest 2 500000), Event (FilterConfig [])]
   \<and> (2::int) \<noteq> 1
   \<and> fst (handle 1 mock_Bus (setup_handler Map.empty old_client))
       = Raises (version_mismatch 2 1)
   \<and> bus (snd (handle 1 mock_Bus (setup_handler Map.empty old_client))) = None
   \<and> log (snd (handle 1 mock_Bus (setup_handler Map.empty old_client))) = []
   \<and> \<not> send_thread_started (snd (handle 1 mock_Bus (setup_handler Map.empty old_client)))"
  using version_mismatch_aborts [where s = "setup_handler Map.empty old_client" and v = 2
      and bitrate = 500000 and rest = "[Event (FilterConfig [])]" and PROTOCOL_VERSION = 1
      and Bus = mock_Bus]
  by (simp add: old_client_def accepted_def setup_handler_def)

text \<open>
  The loop does not touch the server's list. So whenever the handshake succeeds, the bus
  opens and \<^verbatim>\<open>handle\<close> ends, by a return or by an exception, the handler has been
  appended twice and removed once at most (not at all when \<^verbatim>\<open>getpeername\<close> fails in
  \<^verbatim>\<open>finish\<close>): it is still in the list after \<^verbatim>\<open>finish\<close>.
\<close>

lemma clients_receive:
  assumes "receive_from_client s = (r, s')"
  shows "clients s' = clients s \<and> self_id s' = self_id s \<and> peername s' = peername s"
proof (rule receive_from_client_preserves
    [where P = "\<lambda>t. clients t = clients s \<and> self_id t = self_id s \<and> peername t = peername s",
      OF _ _ _ assms])
  show "clients s2 = clients s \<and> self_id s2 = self_id s \<and> peername s2 = peername s"
    if "clients s1 = clients s \<and> self_id s1 = self_id s \<and> peername s1 = peername s"
      "next_event s1 = (r1, s2)"
    for s1 r1 s2
    using that by (auto simp: next_event_def split: list.splits input.splits)
  show "clients s2 = clients s \<and> self_id s2 = self_id s \<and> peername s2 = peername s"
    if "clients s1 = clients s \<and> self_id s1 = self_id s \<and> peername s1 = peername s"
      "dispatch ev s1 = (r1, s2)"
    for ev s1 r1 s2
    using that
    by (auto simp: dispatch_def send_periodic_def send_msg_def send_event_def logged_def
        split: event.splits option.splits prod.splits)
  show "clients s = clients s \<and> self_id s = self_id s \<and> peername s = peername s" by simp
qed

lemma stays_registered:
  assumes "inbound s = Event (BusRequest PROTOCOL_VERSION bitrate) # Event (FilterConfig fs) # rest"
    and "Bus ((setdefault ''bitrate'' (Int_val bitrate) server_config)
                (''can_filters'' \<mapsto> Filters_val fs)) = Inr b"
    and "serve_client server_config PROTOCOL_VERSION Bus s = (r, s')"
    and "r \<noteq> Blocks"
  shows "clients s' =
           (case peername s of
              None \<Rightarrow> clients s @ [self_id s, self_id s]
            | Some address \<Rightarrow> remove1 (self_id s) (clients s @ [self_id s, self_id s]))"
    and "self_id s \<in> set (clients s')"
proof -
  obtain r1 s1 where h: "handle PROTOCOL_VERSION Bus (setup_handler server_config s) = (r1, s1)"
    by fastforce
  have "\<exists>t. handle PROTOCOL_VERSION Bus (setup_handler server_config s) = receive_from_client t
      \<and> clients t = clients s @ [self_id s, self_id s] \<and> self_id t = self_id s
      \<and> peername t = peername s"
    using assms(1,2)
    apply (simp add: handle_def handle_filters_def next_event_def setup_handler_def open_bus_def
        start_relaying_def send_event_def sendall_next_data_def logged_def Let_def)
    apply (rule exI)
    apply (rule conjI [OF refl])
    apply simp
    done
  then obtain t where t: "receive_from_client t = (r1, s1)"
      "clients t = clients s @ [self_id s, self_id s]" "self_id t = self_id s"
      "peername t = peername s"
    using h by auto
  from clients_receive [OF t(1)] t(2,3,4)
  have c: "clients s1 = clients s @ [self_id s, self_id s]" "self_id s1 = self_id s"
      "peername s1 = peername s"
    by simp_all
  show cl: "clients s' =
           (case peername s of
              None \<Rightarrow> clients s @ [self_id s, self_id s]
            | Some address \<Rightarrow> remove1 (self_id s) (clients s @ [self_id s, self_id s]))"
  proof (cases "peername s")
    case None
    with c have "finish s1 = (Raises (OSError ''getpeername''), s1)"
      by (simp add: finish_def)
    with assms(3,4) h have "s' = s1"
      by (auto simp: serve_client_def split: outcome.splits)
    with c None show ?thesis by simp
  next
    case (Some address)
    with c have "finish s1 = (Returns (),
        s1\<lparr>clients := remove1 (self_id s) (clients s @ [self_id s, self_id s]),
           stop_event := True\<rparr>)"
      by (simp add: finish_def)
    with assms(3,4) h
    have "s' = s1\<lparr>clients := remove1 (self_id s) (clients s @ [self_id s, self_id s]),
                   stop_event := True\<rparr>"
      by (auto simp: serve_client_def split: outcome.splits)
    with Some show ?thesis by simp
  qed
  show "self_id s \<in> set (clients s')"
    unfolding cl
    by (cases "self_id s \<in> set (clients s)")
      (simp_all add: remove1_append split: option.splits)
qed

text \<open>
  C1. A client completes the handshake, the bus opens, and the client closes the
  connection. \<^verbatim>\<open>setup\<close> has appended the handler to the server's list and \<^verbatim>\<open>handle\<close>
  appends it again after opening the bus: while relaying the handler is in the list
  twice. \<^verbatim>\<open>finish\<close> removes one occurrence, so after the teardown the handler is still
  in the list.
\<close>

theorem registered_twice:
  "clients (snd (handle 1 mock_Bus (setup_handler Map.empty handshake))) = [0, 0]
   \<and> fst (serve_client Map.empty 1 mock_Bus handshake) = Returns ()
   \<and> clients (snd (serve_client Map.empty 1 mock_Bus handshake)) = [0]"
  by (simp add: serve_client_def setup_handler_def handshake_def accepted_def handle_def
      next_event_def handle_filters_def setdefault_def open_bus_def mock_Bus_def mock_bus_def
      send_event_def logged_def sendall_next_data_def start_relaying_def
      receive_from_client.simps dispatch_def send_periodic_def finish_def)

section \<open>The bus-to-client loop\<close>

text \<open>What the inner loop does with the script of the bus, for any script.\<close>

lemma read_all_can_events_batch:
  assumes "bus s = Some b" and "recv_results b = rs" and "\<not> is_RemoteException e0"
  shows "read_all_can_events (Some e0) s =
    (Returns (),
     s\<lparr>bus := Some (b\<lparr>recv_results := after_batch rs\<rparr>),
       outbound := outbound s @ e0 # batch rs,
       stop_event := stop_event s \<or> ends_in_error rs,
       log := log s @ drain_log (e0 # batch rs)\<rparr>)"
  using assms
proof (induction rs arbitrary: s b e0)
  case Nil
  then show ?case
    by (simp add: read_all_can_events.simps next_event_from_bus_def bus_recv_def
        send_event_def logged_def)
next
  case (Cons r rs)
  show ?case
  proof (cases r)
    case (Frame m)
    let ?s2 = "s\<lparr>outbound := outbound s @ [e0],
                 bus := Some (b\<lparr>recv_results := rs\<rparr>),
                 log := log s @ [Conn_send_event e0, Bus_recv 0]\<rparr>"
    have "read_all_can_events (Some e0) s = read_all_can_events (Some (CanMessage m)) ?s2"
      using Cons.prems Frame
      by (subst read_all_can_events.simps)
        (simp add: next_event_from_bus_def bus_recv_def send_event_def logged_def)
    also have "\<dots> = (Returns (),
       ?s2\<lparr>bus := Some ((b\<lparr>recv_results := rs\<rparr>)\<lparr>recv_results := after_batch rs\<rparr>),
         outbound := outbound ?s2 @ CanMessage m # batch rs,
         stop_event := stop_event ?s2 \<or> ends_in_error rs,
         log := log ?s2 @ drain_log (CanMessage m # batch rs)\<rparr>)"
      by (rule Cons.IH) simp_all
    finally show ?thesis using Cons.prems Frame by (auto intro!: session.equality)
  next
    case No_frame
    with Cons.prems show ?thesis
      by (auto simp: read_all_can_events.simps next_event_from_bus_def bus_recv_def
          send_event_def logged_def intro!: session.equality)
  next
    case (Recv_error e)
    with Cons.prems show ?thesis
      by (auto simp: read_all_can_events.simps next_event_from_bus_def bus_recv_def
          send_event_def logged_def intro!: session.equality)
  qed
qed

lemma read_all_can_events_Some:
  assumes "bus s = Some b" and "\<not> is_RemoteException e0"
  shows "read_all_can_events (Some e0) s =
    (Returns (),
     s\<lparr>bus := Some (b\<lparr>recv_results := after_batch (script s)\<rparr>),
       outbound := outbound s @ e0 # batch (script s),
       stop_event := stop_event s \<or> ends_in_error (script s),
       log := log s @ drain_log (e0 # batch (script s))\<rparr>)"
  using read_all_can_events_batch [OF assms(1) refl assms(2)] assms(1)
  by (simp add: script_def)

text \<open>One pass of the outer loop, for any script of the bus and of the socket.\<close>

lemma send_iteration_batch:
  assumes "bus s = Some b"
  shows "send_iteration s =
    (Returns (),
     s\<lparr>bus := Some (b\<lparr>recv_results := after_batch (recv_results b)\<rparr>),
       writable := tl (writable s),
       stop_event := stop_event s \<or> ends_in_error (recv_results b),
       outbound :=
         (if client_ready s \<and> outbound s @ batch (recv_results b) \<noteq> [] then []
          else outbound s @ batch (recv_results b)),
       log := log s @ [Bus_recv 500, Select 2000 (client_ready s)]
                @ drain_log (batch (recv_results b))
                @ (if client_ready s \<and> outbound s @ batch (recv_results b) \<noteq> []
                   then [Sendall (outbound s @ batch (recv_results b))] else [])\<rparr>)"
proof (cases "recv_results b")
  case Nil
  with assms show ?thesis
    by (cases "writable s")
      (auto simp: send_iteration_def next_event_from_bus_def bus_recv_def select_writable_def
        logged_def client_ready_def read_all_can_events.simps sendall_next_data_def
        intro!: session.equality)
next
  case (Cons r rs)
  show ?thesis
  proof (cases r)
    case (Frame m)
    with assms Cons show ?thesis
      by (cases "writable s")
        (auto simp: send_iteration_def next_event_from_bus_def bus_recv_def
          select_writable_def logged_def client_ready_def read_all_can_events_Some script_def
          sendall_next_data_def intro!: session.equality)
  next
    case No_frame
    with assms Cons show ?thesis
      by (cases "writable s")
        (auto simp: send_iteration_def next_event_from_bus_def bus_recv_def
          select_writable_def logged_def client_ready_def read_all_can_events.simps
          sendall_next_data_def intro!: session.equality)
  next
    case (Recv_error e)
    with assms Cons show ?thesis
      by (cases "writable s")
        (auto simp: send_iteration_def next_event_from_bus_def bus_recv_def
          select_writable_def logged_def client_ready_def read_all_can_events.simps
          sendall_next_data_def send_event_def intro!: session.equality)
  qed
qed


text \<open>
  The script up to the first bus error: the pass that meets the error takes the script
  up to and including it, a pass before it leaves the error in the script.
\<close>

lemma batch_to_error:
  assumes "list_all (\<lambda>r. \<not> is_Recv_error r) pre"
    and "ends_in_error (pre @ Recv_error e # post)"
  shows "after_batch (pre @ Recv_error e # post) = post
       \<and> (\<exists>evs. batch (pre @ Recv_error e # post) = evs @ [RemoteException (CanError e)])
       \<and> (\<exists>dr. drain_log (batch (pre @ Recv_error e # post))
                 = dr @ [Conn_send_event (RemoteException (CanError e))]
               \<and> list_all drain_call dr)"
  using assms
proof (induction pre)
  case Nil
  then show ?case by simp
next
  case (Cons r pre)
  show ?case
  proof (cases r)
    case (Frame m)
    with Cons obtain evs dr where
      "after_batch (pre @ Recv_error e # post) = post"
      "batch (pre @ Recv_error e # post) = evs @ [RemoteException (CanError e)]"
      "drain_log (batch (pre @ Recv_error e # post))
         = dr @ [Conn_send_event (RemoteException (CanError e))]"
      "list_all drain_call dr"
      by auto
    with Frame show ?thesis
      by (auto intro!: exI [of _ "CanMessage m # evs"]
          exI [of _ "Conn_send_event (CanMessage m) # Bus_recv 0 # dr"])
  qed (use Cons.prems in simp_all)
qed

lemma batch_before_error:
  assumes "list_all (\<lambda>r. \<not> is_Recv_error r) pre"
    and "\<not> ends_in_error (pre @ Recv_error e # post)"
  shows "(\<exists>pre'. after_batch (pre @ Recv_error e # post) = pre' @ Recv_error e # post
                \<and> list_all (\<lambda>r. \<not> is_Recv_error r) pre' \<and> length pre' < length pre)
       \<and> list_all (\<lambda>c. \<not> exception_queued c) (drain_log (batch (pre @ Recv_error e # post)))"
  using assms
proof (induction pre)
  case Nil
  then show ?case by simp
next
  case (Cons r pre)
  show ?case
  proof (cases r)
    case (Frame m)
    with Cons obtain pre' where
      "after_batch (pre @ Recv_error e # post) = pre' @ Recv_error e # post"
      "list_all (\<lambda>r. \<not> is_Recv_error r) pre'" "length pre' < length pre"
      "list_all (\<lambda>c. \<not> exception_queued c) (drain_log (batch (pre @ Recv_error e # post)))"
      by auto
    with Frame show ?thesis by auto
  next
    case No_frame
    with Cons.prems show ?thesis by auto
  next
    case (Recv_error x)
    with Cons.prems show ?thesis by simp
  qed
qed

text \<open>
  C7, as stated, fails: with two frames waiting on the bus, the second one is polled after
  the \<^verbatim>\<open>select\<close> call has checked the socket.
\<close>

theorem drain_before_select_counterexample:
  "log (snd (send_iteration busy)) =
     [Bus_recv 500, Select 2000 True,
      Conn_send_event (CanMessage frame1), Bus_recv 0,
      Conn_send_event (CanMessage frame2), Bus_recv 0,
      Sendall [CanMessage frame1, CanMessage frame2]]
   \<and> \<not> polls_precede_select (log (snd (send_iteration busy)))"
  by (simp add: send_iteration_def busy_def relaying_def accepted_def mock_bus_def
      next_event_from_bus_def bus_recv_def select_writable_def logged_def
      read_all_can_events.simps send_event_def sendall_next_data_def)

text \<open>
  C7, amended. Every pass of the bus-to-client loop polls the bus once with the wait of
  0.5 s, then checks with \<^verbatim>\<open>select\<close> whether the socket is writable, and only then queues
  the event it got and drains the frames that are available with polls that do not wait,
  until the bus has no frame or reports an error. The one write that follows, made when
  the socket was writable and the buffer is not empty, carries the whole buffer: what was
  queued before and every event of this pass.
\<close>

theorem iteration_order:
  assumes "bus s = Some b"
  shows "send_iteration s =
    (Returns (),
     s\<lparr>bus := Some (b\<lparr>recv_results := after_batch (recv_results b)\<rparr>),
       writable := tl (writable s),
       stop_event := stop_event s \<or> ends_in_error (recv_results b),
       outbound :=
         (if client_ready s \<and> outbound s @ batch (recv_results b) \<noteq> [] then []
          else outbound s @ batch (recv_results b)),
       log := log s @ [Bus_recv 500, Select 2000 (client_ready s)]
                @ drain_log (batch (recv_results b))
                @ (if client_ready s \<and> outbound s @ batch (recv_results b) \<noteq> []
                   then [Sendall (outbound s @ batch (recv_results b))] else [])\<rparr>)"
  using assms by (rule send_iteration_batch)

theorem iteration_order_witness:
  "bus busy = Some (mock_bus\<lparr>recv_results := [Frame frame1, Frame frame2]\<rparr>)
   \<and> fst (send_iteration busy) = Returns ()
   \<and> outbound (snd (send_iteration busy)) = []
   \<and> log (snd (send_iteration busy)) =
       [Bus_recv 500, Select 2000 True,
        Conn_send_event (CanMessage frame1), Bus_recv 0,
        Conn_send_event (CanMessage frame2), Bus_recv 0,
        Sendall [CanMessage frame1, CanMessage frame2]]"
  using iteration_order [of busy "mock_bus\<lparr>recv_results := [Frame frame1, Frame frame2]\<rparr>"]
  by (simp add: busy_def relaying_def accepted_def client_ready_def)

text \<open>
  C6, as stated, fails: when the socket is not writable in the pass in which the bus
  reports the error, the \<^verbatim>\<open>RemoteException\<close> is queued and never written to the socket.
  The loop ends and shuts the bus down with the event still in the outbound buffer.
\<close>

theorem exception_delivered_counterexample:
  "map_option (\<lambda>(r, s'). (r, log s', outbound s')) (send_to_client stalled) =
     Some (Returns (),
           [Bus_recv 500, Select 2000 False,
            Conn_send_event (RemoteException (CanError ''bus off'')), Bus_shutdown],
           [RemoteException (CanError ''bus off'')])"
  by (simp add: send_to_client.simps send_iteration_def stalled_def relaying_def
      accepted_def mock_bus_def next_event_from_bus_def bus_recv_def select_writable_def
      logged_def read_all_can_events.simps send_event_def bus_shutdown_def)

text \<open>
  C6, amended. When a \<^verbatim>\<open>recv\<close> of the adapter reports a bus error during the
  bus-to-client loop, the loop ends: exactly one \<^verbatim>\<open>RemoteException\<close> is queued, the stop
  flag is set, no poll of the bus follows the error, and the adapter is shut down. The
  \<^verbatim>\<open>RemoteException\<close> is written to the socket, together with what was queued before it, if
  the \<^verbatim>\<open>select\<close> call of that pass found the socket writable; otherwise it stays in the
  outbound buffer and is not delivered.
\<close>

theorem receive_error_ends_session:
  assumes "\<not> stop_event s" and "bus s = Some b"
    and "recv_results b = pre @ Recv_error e # post"
    and "list_all (\<lambda>r. \<not> is_Recv_error r) pre"
  shows "\<exists>s' d0 ready dr ob.
           send_to_client s = Some (Returns (), s')
         \<and> stop_event s'
         \<and> bus s' = Some (b\<lparr>recv_results := post, shut_down := True\<rparr>)
         \<and> log s' = log s @ d0 @ Select 2000 ready # dr
                      @ Conn_send_event (RemoteException (CanError e))
                      # (if ready then [Sendall (ob @ [RemoteException (CanError e)])] else [])
                      @ [Bus_shutdown]
         \<and> list_all (\<lambda>c. \<not> exception_queued c) d0
         \<and> list_all drain_call dr
         \<and> outbound s' = (if ready then [] else ob @ [RemoteException (CanError e)])"
  using assms
proof (induction "length pre" arbitrary: s b pre rule: less_induct)
  case less
  let ?rs = "pre @ Recv_error e # post"
  let ?flush = "client_ready s \<and> outbound s @ batch ?rs \<noteq> []"
  let ?s1 = "s\<lparr>bus := Some (b\<lparr>recv_results := after_batch ?rs\<rparr>),
       writable := tl (writable s),
       stop_event := stop_event s \<or> ends_in_error ?rs,
       outbound := (if ?flush then [] else outbound s @ batch ?rs),
       log := log s @ [Bus_recv 500, Select 2000 (client_ready s)]
                @ drain_log (batch ?rs)
                @ (if ?flush then [Sendall (outbound s @ batch ?rs)] else [])\<rparr>"
  have it: "send_iteration s = (Returns (), ?s1)"
    using send_iteration_batch [OF less.prems(2)] less.prems(3) by simp
  have loop: "send_to_client s = send_to_client ?s1"
    using less.prems(1) it by (subst send_to_client.simps) simp
  show ?case
  proof (cases "ends_in_error ?rs")
    case True
    from batch_to_error [OF less.prems(4) True]
    obtain evs dr where b: "after_batch ?rs = post"
        "batch ?rs = evs @ [RemoteException (CanError e)]"
        "drain_log (batch ?rs) = dr @ [Conn_send_event (RemoteException (CanError e))]"
        "list_all drain_call dr"
      by blast
    let ?s' = "?s1\<lparr>bus := Some (b\<lparr>recv_results := post, shut_down := True\<rparr>),
                  log := log ?s1 @ [Bus_shutdown]\<rparr>"
    have "send_to_client ?s1 = Some (Returns (), ?s')"
      using True b(1)
      by (subst send_to_client.simps) (simp add: bus_shutdown_def logged_def)
    with loop have run: "send_to_client s = Some (Returns (), ?s')" by simp
    have fl: "?flush = client_ready s" using b(2) by simp
    have "stop_event ?s'" using True by simp
    moreover have "bus ?s' = Some (b\<lparr>recv_results := post, shut_down := True\<rparr>)" by simp
    moreover have "log ?s' = log s @ [Bus_recv 500] @ Select 2000 (client_ready s) # dr
                      @ Conn_send_event (RemoteException (CanError e))
                      # (if client_ready s
                         then [Sendall ((outbound s @ evs) @ [RemoteException (CanError e)])]
                         else [])
                      @ [Bus_shutdown]"
      unfolding fl using b(2,3) by simp
    moreover have "outbound ?s' =
        (if client_ready s then [] else (outbound s @ evs) @ [RemoteException (CanError e)])"
      unfolding fl using b(2) by simp
    ultimately show ?thesis
      using run b(4)
      by (intro exI [of _ ?s'] exI [of _ "[Bus_recv 500]"] exI [of _ "client_ready s"]
          exI [of _ dr] exI [of _ "outbound s @ evs"] conjI)
        simp_all
  next
    case False
    from batch_before_error [OF less.prems(4) False]
    obtain pre' where b: "after_batch ?rs = pre' @ Recv_error e # post"
        "list_all (\<lambda>r. \<not> is_Recv_error r) pre'" "length pre' < length pre"
        "list_all (\<lambda>c. \<not> exception_queued c) (drain_log (batch ?rs))"
      by blast
    have "\<exists>s' d0 ready dr ob.
           send_to_client ?s1 = Some (Returns (), s')
         \<and> stop_event s'
         \<and> bus s' = Some ((b\<lparr>recv_results := after_batch ?rs\<rparr>)\<lparr>recv_results := post, shut_down := True\<rparr>)
         \<and> log s' = log ?s1 @ d0 @ Select 2000 ready # dr
                      @ Conn_send_event (RemoteException (CanError e))
                      # (if ready then [Sendall (ob @ [RemoteException (CanError e)])] else [])
                      @ [Bus_shutdown]
         \<and> list_all (\<lambda>c. \<not> exception_queued c) d0
         \<and> list_all drain_call dr
         \<and> outbound s' = (if ready then [] else ob @ [RemoteException (CanError e)])"
      using b(3)
    proof (rule less.hyps)
      show "\<not> stop_event ?s1" using less.prems(1) False by simp
      show "bus ?s1 = Some (b\<lparr>recv_results := after_batch ?rs\<rparr>)" by simp
      show "recv_results (b\<lparr>recv_results := after_batch ?rs\<rparr>) = pre' @ Recv_error e # post"
        using b(1) by simp
      show "list_all (\<lambda>r. \<not> is_Recv_error r) pre'" by (rule b(2))
    qed
    then obtain s' d0 ready dr ob where ih:
        "send_to_client ?s1 = Some (Returns (), s')" "stop_event s'"
        "bus s' = Some (b\<lparr>recv_results := post, shut_down := True\<rparr>)"
        "log s' = log ?s1 @ d0 @ Select 2000 ready # dr
                      @ Conn_send_event (RemoteException (CanError e))
                      # (if ready then [Sendall (ob @ [RemoteException (CanError e)])] else [])
                      @ [Bus_shutdown]"
        "list_all (\<lambda>c. \<not> exception_queued c) d0" "list_all drain_call dr"
        "outbound s' = (if ready then [] else ob @ [RemoteException (CanError e)])"
      by auto
    let ?d1 = "[Bus_recv 500, Select 2000 (client_ready s)] @ drain_log (batch ?rs)
                @ (if ?flush then [Sendall (outbound s @ batch ?rs)] else [])"
    have "list_all (\<lambda>c. \<not> exception_queued c) (?d1 @ d0)"
      using b(4) ih(5) by simp
    moreover have "log s' = log s @ (?d1 @ d0) @ Select 2000 ready # dr
                      @ Conn_send_event (RemoteException (CanError e))
                      # (if ready then [Sendall (ob @ [RemoteException (CanError e)])] else [])
                      @ [Bus_shutdown]"
      using ih(4) by simp
    ultimately show ?thesis
      using loop ih(1,2,3,6,7)
      by (intro exI [of _ s'] exI [of _ "?d1 @ d0"] exI [of _ ready] exI [of _ dr]
          exI [of _ ob]) simp
  qed
qed

theorem receive_error_ends_session_witness:
  "\<not> stop_event stalled
   \<and> bus stalled = Some (mock_bus\<lparr>recv_results := [Recv_error ''bus off'']\<rparr>)
   \<and> (\<exists>s' d0 ready dr ob.
         send_to_client stalled = Some (Returns (), s')
       \<and> stop_event s'
       \<and> bus s' = Some (mock_bus\<lparr>recv_results := [], shut_down := True\<rparr>)
       \<and> log s' = d0 @ Select 2000 ready # dr
                    @ Conn_send_event (RemoteException (CanError ''bus off''))
                    # (if ready then [Sendall (ob @ [RemoteException (CanError ''bus off'')])]
                       else [])
                    @ [Bus_shutdown]
       \<and> list_all (\<lambda>c. \<not> exception_queued c) d0
       \<and> list_all drain_call dr
       \<and> outbound s' = (if ready then [] else ob @ [RemoteException (CanError ''bus off'')]))"
  using receive_error_ends_session [of stalled
      "mock_bus\<lparr>recv_results := [Recv_error ''bus off'']\<rparr>" "[]" "''bus off''" "[]"]
  by (simp add: stalled_def relaying_def accepted_def)

end
